theory Spec2Isabelle
  imports Complex_Main "HOL-Library.AList"
begin

section \<open>Syntax trees and values\<close>

text \<open>
  The parser (parser.js) builds the tree from the classes \<open>Program\<close>, \<open>NodeDeclaration\<close>,
  \<open>ActionDeclaration\<close>, ...; each class is a constructor of \<open>node\<close>. A \<open>Literal\<close> holds
  the value of a NUMBER, STRING or BOOLEAN token, nothing else (parsePrimary). The body of
  an \<open>ActionDeclaration\<close> is the statement list of the block parseBlock returns; the
  alternate of a \<open>CheckStatement\<close> is \<open>null\<close> or a block.

  Numbers are the host's double-precision floats. The model computes with exact
  rationals: it agrees with the host wherever the host's arithmetic is exact (integers
  below \<open>2^53\<close> in magnitude, in particular). Rounding, infinities and NaN are left out.
\<close>

datatype lit = LNum rat | LStr string | LBool bool

datatype node =
    Program "node list"
  | NodeDeclaration string node
  | ActionDeclaration string "string list" "node list"
  | CheckStatement node node "node option"
  | EachStatement string node node
  | AsStatement node node
  | BlockStatement "node list"
  | BinaryExpression string node node
  | UnaryExpression string node
  | CallExpression node "node list"
  | MemberExpression node node bool
  | ArrayExpression "node list"
  | Identifier string
  | Literal lit

text \<open>
  An environment object is identified by the address of its own frame followed by the
  addresses of its ancestors, nearest first: \<open>this.parent\<close> is the tail of the list, and
  the empty list is \<open>null\<close>. The field \<open>parent\<close> is written by the constructor only, so
  the list never changes once the object exists.

  Arrays and records are held by value: the evaluator never writes to an array or an
  object once it is built (the builtins \<open>push\<close> and \<open>pop\<close> work on copies, which the
  section on builtins checks on an explicit store). An action is the closure
  \<open>(...args) => {...}\<close> of evaluateActionDeclaration: it captures the declaration's
  parameters and body and the environment of the declaration.
\<close>

type_synonym env = "nat list"

datatype val =
    Number rat
  | Str string
  | Boolean bool
  | Null
  | Undefined
  | Array "val list"
  | Record "(string \<times> val) list"
  | Action "string list" "node list" env
  | Builtin string

text \<open>
  Every \<open>throw\<close> of the evaluator and of the environment is a constructor of \<open>error\<close>:

  \<^item> \<open>UndefinedVariable name\<close>: \<open>Undefined variable: name\<close>, from \<open>get\<close> and \<open>set\<close> of the
    class Environment;
  \<^item> \<open>NotAFunction\<close>: \<open>... is not a function\<close>, from evaluateCallExpression;
  \<^item> \<open>EachRequiresArray\<close>: \<open>Each statement requires an array\<close>;
  \<^item> \<open>MaxIterationsExceeded\<close>: \<open>Maximum iteration limit exceeded in as loop\<close>;
  \<^item> \<open>UnknownOperator op\<close>: \<open>Unknown binary operator\<close> and \<open>Unknown unary operator\<close>;
  \<^item> \<open>HostTypeError\<close>: a TypeError of the host, such as a property read on \<open>null\<close>.

  Two more stand for no \<open>throw\<close>. \<open>Unmodelled what\<close> marks an operation of the host this
  development does not follow (a coercion between types, a builtin outside the ones
  modelled): nothing is stated about a run that reaches one. \<open>OutOfFuel\<close> is the model's
  own: the fuel bounds the depth of the evaluation, and ran out.
\<close>

datatype error =
    UndefinedVariable string
  | NotAFunction
  | EachRequiresArray
  | MaxIterationsExceeded
  | UnknownOperator string
  | HostTypeError
  | Unmodelled string
  | OutOfFuel

section \<open>Environments (environment.js)\<close>

text \<open>
  A frame is the \<open>variables\<close> Map of one Environment object, in insertion order.
  evaluateActionDeclaration replaces the methods \<open>define\<close> and \<open>set\<close> of the environment
  it creates for a call; \<open>overrides\<close> is \<open>None\<close> for an environment with the methods of
  the class, and \<open>Some (params, assignedVars)\<close> for the environment of a call: the
  parameter names the replaced methods test, and the Set \<open>assignedVars\<close> they fill, in
  insertion order.
\<close>

record frame =
  variables :: "(string \<times> val) list"
  overrides :: "(string list \<times> string list) option"

record state =
  frames :: "frame list"
  out :: "val list list"

definition bound :: "state \<Rightarrow> nat \<Rightarrow> string \<Rightarrow> bool" where
  \<comment> \<open>\<open>this.variables.has(name)\<close> for the frame at address \<open>a\<close>\<close>
  "bound st a name = (map_of (variables (frames st ! a)) name \<noteq> None)"

definition variables_set :: "nat \<Rightarrow> string \<Rightarrow> val \<Rightarrow> state \<Rightarrow> state" where
  \<comment> \<open>\<open>this.variables.set(name, value)\<close>: a Map keeps the position of a key it has\<close>
  "variables_set a name v st =
     st\<lparr>frames := (frames st)[a := (frames st ! a)
        \<lparr>variables := AList.update name v (variables (frames st ! a))\<rparr>]\<rparr>"

definition assignedVars_add :: "string \<Rightarrow> string list \<Rightarrow> string list" where
  \<comment> \<open>\<open>assignedVars.add(name)\<close> on a Set\<close>
  "assignedVars_add name names = (if name \<in> set names then names else names @ [name])"

definition action_define :: "nat \<Rightarrow> string list \<Rightarrow> string list \<Rightarrow> string \<Rightarrow> val \<Rightarrow> state \<Rightarrow> state" where
  \<comment> \<open>the body shared by the replaced \<open>define\<close> and \<open>set\<close> of a call's environment\<close>
  "action_define a params assigned name v st =
     variables_set a name v
       (if name \<notin> set params
        then st\<lparr>frames := (frames st)[a := (frames st ! a)
               \<lparr>overrides := Some (params, assignedVars_add name assigned)\<rparr>]\<rparr>
        else st)"

fun Environment_define :: "env \<Rightarrow> string \<Rightarrow> val \<Rightarrow> state \<Rightarrow> error + state" where
  "Environment_define [] name v st = Inl HostTypeError"
| "Environment_define (a # ps) name v st =
     (case overrides (frames st ! a) of
        Some (params, assigned) \<Rightarrow> Inr (action_define a params assigned name v st)
      | None \<Rightarrow> Inr (variables_set a name v st))"

fun Environment_get :: "env \<Rightarrow> string \<Rightarrow> state \<Rightarrow> error + val" where
  "Environment_get [] name st = Inl (UndefinedVariable name)"
| "Environment_get (a # ps) name st =
     (case map_of (variables (frames st ! a)) name of
        Some v \<Rightarrow> Inr v
      | None \<Rightarrow> Environment_get ps name st)"

fun Environment_set :: "env \<Rightarrow> string \<Rightarrow> val \<Rightarrow> state \<Rightarrow> error + state" where
  "Environment_set [] name v st = Inl (UndefinedVariable name)"
| "Environment_set (a # ps) name v st =
     (case overrides (frames st ! a) of
        Some (params, assigned) \<Rightarrow> Inr (action_define a params assigned name v st)
      | None \<Rightarrow>
          if bound st a name then Inr (variables_set a name v st)
          else Environment_set ps name v st)"

fun Environment_has :: "env \<Rightarrow> string \<Rightarrow> state \<Rightarrow> bool" where
  "Environment_has [] name st = False"
| "Environment_has (a # ps) name st = (bound st a name \<or> Environment_has ps name st)"


definition new_Environment :: "env \<Rightarrow> state \<Rightarrow> env \<times> state" where
  \<comment> \<open>\<open>new Environment(parent)\<close>: a fresh frame, empty, with the methods of the class\<close>
  "new_Environment parent st =
     (length (frames st) # parent,
      st\<lparr>frames := frames st @ [\<lparr>variables = [], overrides = None\<rparr>]\<rparr>)"

section \<open>Host operators\<close>

text \<open>
  The evaluator applies the host's operators to the two operand values. The model gives
  them on operands of one primitive type; operands the host would first coerce, and
  results that are not finite, are the outcome \<open>Unmodelled\<close>. Identity of arrays,
  records and actions is not part of a value, so \<open>===\<close> on two of them is \<open>Unmodelled\<close>
  as well.
\<close>

fun isTruthy :: "val \<Rightarrow> bool" where
  "isTruthy Null = False"
| "isTruthy Undefined = False"
| "isTruthy (Boolean b) = b"
| "isTruthy (Number x) = (x \<noteq> 0)"
| "isTruthy (Str s) = (length s > 0)"
| "isTruthy (Array xs) = True"
| "isTruthy (Record kvs) = True"
| "isTruthy (Action params body env) = True"
| "isTruthy (Builtin name) = True"

fun str_less :: "string \<Rightarrow> string \<Rightarrow> bool" where
  "str_less s [] = False"
| "str_less [] (y # ys) = True"
| "str_less (x # xs) (y # ys) =
     ((of_char x :: nat) < of_char y \<or> (x = y \<and> str_less xs ys))"

definition js_add :: "val \<Rightarrow> val \<Rightarrow> error + val" where
  "js_add l r =
     (case l of
        Number a \<Rightarrow> (case r of Number b \<Rightarrow> Inr (Number (a + b)) | _ \<Rightarrow> Inl (Unmodelled ''+''))
      | Str s \<Rightarrow> (case r of Str t \<Rightarrow> Inr (Str (s @ t)) | _ \<Rightarrow> Inl (Unmodelled ''+''))
      | _ \<Rightarrow> Inl (Unmodelled ''+''))"

definition js_arith :: "string \<Rightarrow> val \<Rightarrow> val \<Rightarrow> error + val" where
  "js_arith op l r =
     (case l of
        Number a \<Rightarrow>
          (case r of
             Number b \<Rightarrow>
               if op = ''-'' then Inr (Number (a - b))
               else if op = ''*'' then Inr (Number (a * b))
               else if b = 0 then Inl (Unmodelled op)
               else if op = ''/'' then Inr (Number (a / b))
               else Inr (Number (a - b * of_int (if a / b \<ge> 0 then \<lfloor>a / b\<rfloor> else \<lceil>a / b\<rceil>)))
           | _ \<Rightarrow> Inl (Unmodelled op))
      | _ \<Rightarrow> Inl (Unmodelled op))"

definition js_strict_equals :: "val \<Rightarrow> val \<Rightarrow> error + bool" where
  "js_strict_equals l r =
     (case l of
        Number a \<Rightarrow> (case r of Number b \<Rightarrow> Inr (a = b) | _ \<Rightarrow> Inr False)
      | Str s \<Rightarrow> (case r of Str t \<Rightarrow> Inr (s = t) | _ \<Rightarrow> Inr False)
      | Boolean a \<Rightarrow> (case r of Boolean b \<Rightarrow> Inr (a = b) | _ \<Rightarrow> Inr False)
      | Null \<Rightarrow> (case r of Null \<Rightarrow> Inr True | _ \<Rightarrow> Inr False)
      | Undefined \<Rightarrow> (case r of Undefined \<Rightarrow> Inr True | _ \<Rightarrow> Inr False)
      | Array xs \<Rightarrow> (case r of Array ys \<Rightarrow> Inl (Unmodelled ''==='') | _ \<Rightarrow> Inr False)
      | Record xs \<Rightarrow> (case r of Record ys \<Rightarrow> Inl (Unmodelled ''==='') | _ \<Rightarrow> Inr False)
      | Action ps b e \<Rightarrow> (case r of Action ps' b' e' \<Rightarrow> Inl (Unmodelled ''==='') | _ \<Rightarrow> Inr False)
      | Builtin f \<Rightarrow> (case r of Builtin g \<Rightarrow> Inr (f = g) | _ \<Rightarrow> Inr False))"

definition js_less :: "val \<Rightarrow> val \<Rightarrow> error + bool" where
  "js_less l r =
     (case l of
        Number a \<Rightarrow> (case r of Number b \<Rightarrow> Inr (a < b) | _ \<Rightarrow> Inl (Unmodelled ''<''))
      | Str s \<Rightarrow> (case r of Str t \<Rightarrow> Inr (str_less s t) | _ \<Rightarrow> Inl (Unmodelled ''<''))
      | _ \<Rightarrow> Inl (Unmodelled ''<''))"

definition to_Boolean :: "(bool \<Rightarrow> bool) \<Rightarrow> error + bool \<Rightarrow> error + val" where
  "to_Boolean f m = (case m of Inl e \<Rightarrow> Inl e | Inr b \<Rightarrow> Inr (Boolean (f b)))"

definition binary_operator :: "string \<Rightarrow> val \<Rightarrow> val \<Rightarrow> error + val" where
  \<comment> \<open>the \<open>switch (node.operator)\<close> of evaluateBinaryExpression, on the two operand values\<close>
  "binary_operator op left right =
     (if op = ''+'' then js_add left right
      else if op = ''-'' \<or> op = ''*'' \<or> op = ''/'' \<or> op = ''%'' then js_arith op left right
      else if op = ''=='' then to_Boolean (\<lambda>b. b) (js_strict_equals left right)
      else if op = ''!='' then to_Boolean Not (js_strict_equals left right)
      else if op = ''<'' then to_Boolean (\<lambda>b. b) (js_less left right)
      else if op = ''>'' then to_Boolean (\<lambda>b. b) (js_less right left)
      else if op = ''<='' then
        (case js_less left right of
           Inl e \<Rightarrow> Inl e
         | Inr lt \<Rightarrow> to_Boolean (\<lambda>eq. lt \<or> eq) (js_strict_equals left right))
      else if op = ''>='' then
        (case js_less right left of
           Inl e \<Rightarrow> Inl e
         | Inr gt \<Rightarrow> to_Boolean (\<lambda>eq. gt \<or> eq) (js_strict_equals left right))
      else if op = ''&&'' then Inr (Boolean (isTruthy left \<and> isTruthy right))
      else if op = ''||'' then Inr (Boolean (isTruthy left \<or> isTruthy right))
      else Inl (UnknownOperator op))"

definition unary_operator :: "string \<Rightarrow> val \<Rightarrow> error + val" where
  "unary_operator op argument =
     (if op = ''-'' then
        (case argument of Number a \<Rightarrow> Inr (Number (- a)) | _ \<Rightarrow> Inl (Unmodelled ''-''))
      else if op = ''!'' then Inr (Boolean (\<not> isTruthy argument))
      else Inl (UnknownOperator op))"

definition object_prototype_names :: "string list" where
  \<comment> \<open>the property names every plain host object inherits\<close>
  "object_prototype_names =
     [''constructor'', ''__defineGetter__'', ''__defineSetter__'', ''hasOwnProperty'',
      ''__lookupGetter__'', ''__lookupSetter__'', ''isPrototypeOf'', ''propertyIsEnumerable'',
      ''toString'', ''valueOf'', ''__proto__'', ''toLocaleString'']"

definition index_of :: "rat \<Rightarrow> nat \<Rightarrow> nat option" where
  \<comment> \<open>a number used as an index into a sequence of length \<open>len\<close>\<close>
  "index_of k len =
     (if k = of_int \<lfloor>k\<rfloor> \<and> 0 \<le> k \<and> nat \<lfloor>k\<rfloor> < len then Some (nat \<lfloor>k\<rfloor>) else None)"

definition member :: "val \<Rightarrow> val \<Rightarrow> error + val" where
  \<comment> \<open>\<open>object[property]\<close>\<close>
  "member object property =
     (case object of
        Null \<Rightarrow> Inl HostTypeError
      | Undefined \<Rightarrow> Inl HostTypeError
      | Array xs \<Rightarrow>
          (case property of
             Number k \<Rightarrow> (case index_of k (length xs) of Some i \<Rightarrow> Inr (xs ! i) | None \<Rightarrow> Inr Undefined)
           | Str key \<Rightarrow> if key = ''length'' then Inr (Number (of_nat (length xs)))
                        else Inl (Unmodelled ''member'')
           | _ \<Rightarrow> Inl (Unmodelled ''member''))
      | Str s \<Rightarrow>
          (case property of
             Number k \<Rightarrow> (case index_of k (length s) of Some i \<Rightarrow> Inr (Str [s ! i]) | None \<Rightarrow> Inr Undefined)
           | Str key \<Rightarrow> if key = ''length'' then Inr (Number (of_nat (length s)))
                        else Inl (Unmodelled ''member'')
           | _ \<Rightarrow> Inl (Unmodelled ''member''))
      | Record kvs \<Rightarrow>
          (case property of
             Str key \<Rightarrow>
               (case map_of kvs key of
                  Some v \<Rightarrow> Inr v
                | None \<Rightarrow> if key \<in> set object_prototype_names then Inl (Unmodelled ''member'')
                          else Inr Undefined)
           | _ \<Rightarrow> Inl (Unmodelled ''member''))
      | _ \<Rightarrow> Inl (Unmodelled ''member''))"


section \<open>Builtins (builtins.js)\<close>

definition builtin_names :: "string list" where
  \<comment> \<open>the keys of the table \<open>builtins\<close>, in the order of the file\<close>
  "builtin_names =
     [''print'', ''log'',
      ''abs'', ''sqrt'', ''pow'', ''min'', ''max'', ''random'', ''floor'', ''ceil'', ''round'',
      ''length'', ''substring'', ''indexOf'', ''toUpperCase'', ''toLowerCase'', ''split'',
      ''trim'', ''replace'',
      ''push'', ''pop'', ''slice'', ''map'', ''filter'', ''reduce'', ''join'', ''reverse'',
      ''sort'',
      ''sum'', ''average'', ''minimum'', ''maximum'',
      ''toString'', ''toNumber'', ''toBoolean'',
      ''isNumber'', ''isString'', ''isBoolean'', ''isArray'', ''isObject'']"

definition argument :: "val list \<Rightarrow> nat \<Rightarrow> val" where
  \<comment> \<open>\<open>args[i]\<close>: reading past the end of an array gives \<open>undefined\<close>\<close>
  "argument args i = (if i < length args then args ! i else Undefined)"

text \<open>
  The array builtins on an explicit store, where an array is an address and a write to
  it is seen through every reference. \<open>spread\<close> is \<open>[...arr]\<close>, which allocates;
  \<open>Array_push\<close> and \<open>Array_pop\<close> are the host's methods, which write in place.
\<close>

type_synonym 'a store = "'a list list"

definition spread :: "'a store \<Rightarrow> nat \<Rightarrow> 'a store \<times> nat" where
  "spread h arr = (h @ [h ! arr], length h)"

definition Array_push :: "'a store \<Rightarrow> nat \<Rightarrow> 'a list \<Rightarrow> 'a store" where
  "Array_push h a items = h[a := h ! a @ items]"

definition Array_pop :: "'a store \<Rightarrow> nat \<Rightarrow> 'a store \<times> 'a option" where
  \<comment> \<open>\<open>None\<close> is the \<open>undefined\<close> that popping an empty array returns\<close>
  "Array_pop h a =
     (if h ! a = [] then (h, None) else (h[a := butlast (h ! a)], Some (last (h ! a))))"

record 'a popped =
  array :: nat
  item :: "'a option"

definition push :: "'a store \<Rightarrow> nat \<Rightarrow> 'a list \<Rightarrow> 'a store \<times> nat" where
  "push h arr items =
     (let (h1, copy) = spread h arr;
          h2 = Array_push h1 copy items
      in (h2, copy))"

definition pop :: "'a store \<Rightarrow> nat \<Rightarrow> 'a store \<times> 'a popped" where
  "pop h arr =
     (let (h1, copy) = spread h arr;
          (h2, item) = Array_pop h1 copy
      in (h2, \<lparr>array = copy, item = item\<rparr>))"

text \<open>
  The evaluator holds arrays by value and calls the builtins on values. Only \<open>print\<close>,
  \<open>log\<close>, \<open>push\<close>, \<open>pop\<close> and the type tests are given; a call of any other builtin is
  \<open>Unmodelled\<close>. Every name of the table is bound in the global scope all the same.
\<close>

definition call_builtin :: "string \<Rightarrow> val list \<Rightarrow> state \<Rightarrow> error + val \<times> state" where
  "call_builtin name args st =
     (if name = ''print'' \<or> name = ''log'' then
        Inr (if length args = 1 then args ! 0 else Array args, st\<lparr>out := out st @ [args]\<rparr>)
      else if name = ''push'' then
        (case argument args 0 of
           Array xs \<Rightarrow> Inr (Array (xs @ tl args), st)
         | Str s \<Rightarrow> Inl (Unmodelled name)
         | _ \<Rightarrow> Inl HostTypeError)
      else if name = ''pop'' then
        (case argument args 0 of
           Array xs \<Rightarrow>
             Inr (Record [(''array'', Array (butlast xs)),
                          (''item'', if xs = [] then Undefined else last xs)], st)
         | Str s \<Rightarrow> Inl (Unmodelled name)
         | _ \<Rightarrow> Inl HostTypeError)
      else if name = ''isNumber'' then
        Inr (Boolean (case argument args 0 of Number x \<Rightarrow> True | _ \<Rightarrow> False), st)
      else if name = ''isString'' then
        Inr (Boolean (case argument args 0 of Str s \<Rightarrow> True | _ \<Rightarrow> False), st)
      else if name = ''isBoolean'' then
        Inr (Boolean (case argument args 0 of Boolean b \<Rightarrow> True | _ \<Rightarrow> False), st)
      else if name = ''isArray'' then
        Inr (Boolean (case argument args 0 of Array xs \<Rightarrow> True | _ \<Rightarrow> False), st)
      else if name = ''isObject'' then
        Inr (Boolean (case argument args 0 of Record kvs \<Rightarrow> True | _ \<Rightarrow> False), st)
      else Inl (Unmodelled name))"

section \<open>The evaluator (interpreter.js)\<close>

definition maxIterations :: nat where
  "maxIterations = 10000"

definition lit_value :: "lit \<Rightarrow> val" where
  "lit_value l = (case l of LNum x \<Rightarrow> Number x | LStr s \<Rightarrow> Str s | LBool b \<Rightarrow> Boolean b)"

definition declare_node :: "env \<Rightarrow> string \<Rightarrow> val \<Rightarrow> state \<Rightarrow> error + state" where
  \<comment> \<open>evaluateNodeDeclaration, once the value is computed: the three-way choice\<close>
  "declare_node env name v st =
     (case env of
        [] \<Rightarrow> Inl HostTypeError
      | a # parent \<Rightarrow>
          if bound st a name then Inr (variables_set a name v st)
          else if parent \<noteq> [] \<and> Environment_has parent name st then Environment_set env name v st
          else Environment_define env name v st)"

definition bind_params :: "nat \<Rightarrow> string list \<Rightarrow> val list \<Rightarrow> state \<Rightarrow> state" where
  \<comment> \<open>\<open>for (i = 0; i < params.length; i++) actionEnv.define(params[i], args[i])\<close>,
      run before the methods are replaced\<close>
  "bind_params a params args st =
     fold (\<lambda>i. variables_set a (params ! i) (argument args i)) [0..<length params] st"

definition install_overrides :: "nat \<Rightarrow> string list \<Rightarrow> state \<Rightarrow> state" where
  \<comment> \<open>\<open>actionEnv.define = ...; actionEnv.set = ...\<close>, with \<open>assignedVars\<close> empty\<close>
  "install_overrides a params st =
     st\<lparr>frames := (frames st)[a := (frames st ! a)\<lparr>overrides := Some (params, [])\<rparr>]\<rparr>"

definition enter_action :: "string list \<Rightarrow> env \<Rightarrow> val list \<Rightarrow> state \<Rightarrow> env \<times> state" where
  \<comment> \<open>the start of a call, up to the loop over the body: the fresh environment, the
      parameters bound in it, its methods replaced\<close>
  "enter_action params env args st =
     (case new_Environment env st of
        (actionEnv, st1) \<Rightarrow>
          (actionEnv,
           install_overrides (hd actionEnv) params (bind_params (hd actionEnv) params args st1)))"

definition assignedVars :: "nat \<Rightarrow> state \<Rightarrow> string list" where
  \<comment> \<open>the Set \<open>assignedVars\<close> of the call whose scope is the frame at \<open>a\<close>\<close>
  "assignedVars a st = (case overrides (frames st ! a) of Some (params, names) \<Rightarrow> names | None \<Rightarrow> [])"

text \<open>
  The record of an implicit return is built by \<open>result[varName] = ...\<close> on an empty
  object, one name of \<open>assignedVars\<close> after the other. The names are identifiers of the
  scanner: none is an index, so the keys stay in insertion order, and none is a name that
  objects inherit (\<open>readIdentifier\<close> gives such a name another token type), so each
  assignment adds a property of the object's own.
\<close>

fun get_all :: "env \<Rightarrow> string list \<Rightarrow> state \<Rightarrow> error + (string \<times> val) list" where
  \<comment> \<open>\<open>for (const varName of assignedVars) result[varName] = actionEnv.get(varName)\<close>\<close>
  "get_all env [] st = Inr []"
| "get_all env (name # names) st =
     (case Environment_get env name st of
        Inl e \<Rightarrow> Inl e
      | Inr v \<Rightarrow> (case get_all env names st of Inl e \<Rightarrow> Inl e | Inr kvs \<Rightarrow> Inr ((name, v) # kvs)))"

definition implicit_return :: "env \<Rightarrow> val \<Rightarrow> state \<Rightarrow> error + val" where
  "implicit_return actionEnv lastValue st =
     (let names = assignedVars (hd actionEnv) st in
      if length names > 1 then
        (case get_all actionEnv names st of Inl e \<Rightarrow> Inl e | Inr kvs \<Rightarrow> Inr (Record kvs))
      else if length names = 1 then Environment_get actionEnv (names ! 0) st
      else Inr lastValue)"

function evaluate :: "nat \<Rightarrow> node \<Rightarrow> env \<Rightarrow> state \<Rightarrow> error + val \<times> state"
and evaluate_statements :: "nat \<Rightarrow> node list \<Rightarrow> env \<Rightarrow> val \<Rightarrow> state \<Rightarrow> error + val \<times> state"
and evaluate_elements :: "nat \<Rightarrow> node list \<Rightarrow> env \<Rightarrow> state \<Rightarrow> error + val list \<times> state"
and each_loop :: "nat \<Rightarrow> string \<Rightarrow> node \<Rightarrow> env \<Rightarrow> val list \<Rightarrow> nat \<Rightarrow> val \<Rightarrow> state \<Rightarrow> error + val \<times> state"
and as_loop :: "nat \<Rightarrow> node \<Rightarrow> node \<Rightarrow> env \<Rightarrow> nat \<Rightarrow> val \<Rightarrow> state \<Rightarrow> error + val \<times> state"
and call :: "nat \<Rightarrow> val \<Rightarrow> val list \<Rightarrow> state \<Rightarrow> error + val \<times> state"
where
  "evaluate 0 node env st = Inl OutOfFuel"
| "evaluate (Suc n) (Program statements) env st = evaluate_statements n statements env Null st"
| "evaluate (Suc n) (NodeDeclaration name value) env st =
     (case evaluate n value env st of
        Inl e \<Rightarrow> Inl e
      | Inr (v, st1) \<Rightarrow>
          (case declare_node env name v st1 of Inl e \<Rightarrow> Inl e | Inr st2 \<Rightarrow> Inr (v, st2)))"
| "evaluate (Suc n) (ActionDeclaration name params body) env st =
     (case Environment_define env name (Action params body env) st of
        Inl e \<Rightarrow> Inl e
      | Inr st1 \<Rightarrow> Inr (Action params body env, st1))"
| "evaluate (Suc n) (CheckStatement condition consequent alternate) env st =
     (case evaluate n condition env st of
        Inl e \<Rightarrow> Inl e
      | Inr (c, st1) \<Rightarrow>
          if isTruthy c then evaluate n consequent env st1
          else (case alternate of Some alt \<Rightarrow> evaluate n alt env st1 | None \<Rightarrow> Inr (Null, st1)))"
| "evaluate (Suc n) (EachStatement variable iterable body) env st =
     (case evaluate n iterable env st of
        Inl e \<Rightarrow> Inl e
      | Inr (it, st1) \<Rightarrow>
          (case it of
             Array xs \<Rightarrow> each_loop n variable body env xs 0 Null st1
           | _ \<Rightarrow> Inl EachRequiresArray))"
| "evaluate (Suc n) (AsStatement condition body) env st = as_loop n condition body env 0 Null st"
| "evaluate (Suc n) (BlockStatement statements) env st = evaluate_statements n statements env Null st"
| "evaluate (Suc n) (BinaryExpression operator left right) env st =
     (case evaluate n left env st of
        Inl e \<Rightarrow> Inl e
      | Inr (l, st1) \<Rightarrow>
          (case evaluate n right env st1 of
             Inl e \<Rightarrow> Inl e
           | Inr (r, st2) \<Rightarrow>
               (case binary_operator operator l r of Inl e \<Rightarrow> Inl e | Inr v \<Rightarrow> Inr (v, st2))))"
| "evaluate (Suc n) (UnaryExpression operator arg) env st =
     (case evaluate n arg env st of
        Inl e \<Rightarrow> Inl e
      | Inr (a, st1) \<Rightarrow>
          (case unary_operator operator a of Inl e \<Rightarrow> Inl e | Inr v \<Rightarrow> Inr (v, st1)))"
| "evaluate (Suc n) (CallExpression callee args) env st =
     (case evaluate n callee env st of
        Inl e \<Rightarrow> Inl e
      | Inr (fn, st1) \<Rightarrow>
          (case fn of
             Action params body cenv \<Rightarrow>
               (case evaluate_elements n args env st1 of
                  Inl e \<Rightarrow> Inl e
                | Inr (vs, st2) \<Rightarrow> call n fn vs st2)
           | Builtin name \<Rightarrow>
               (case evaluate_elements n args env st1 of
                  Inl e \<Rightarrow> Inl e
                | Inr (vs, st2) \<Rightarrow> call n fn vs st2)
           | _ \<Rightarrow> Inl NotAFunction))"
| "evaluate (Suc n) (MemberExpression object property computed) env st =
     (case evaluate n object env st of
        Inl e \<Rightarrow> Inl e
      | Inr (obj, st1) \<Rightarrow>
          if computed then
            (case evaluate n property env st1 of
               Inl e \<Rightarrow> Inl e
             | Inr (p, st2) \<Rightarrow> (case member obj p of Inl e \<Rightarrow> Inl e | Inr v \<Rightarrow> Inr (v, st2)))
          else
            (case property of
               Identifier name \<Rightarrow> (case member obj (Str name) of Inl e \<Rightarrow> Inl e | Inr v \<Rightarrow> Inr (v, st1))
             | _ \<Rightarrow> Inl (Unmodelled ''member'')))"
| "evaluate (Suc n) (ArrayExpression elements) env st =
     (case evaluate_elements n elements env st of
        Inl e \<Rightarrow> Inl e
      | Inr (vs, st1) \<Rightarrow> Inr (Array vs, st1))"
| "evaluate (Suc n) (Identifier name) env st =
     (case Environment_get env name st of Inl e \<Rightarrow> Inl e | Inr v \<Rightarrow> Inr (v, st))"
| "evaluate (Suc n) (Literal l) env st = Inr (lit_value l, st)"

| "evaluate_statements 0 statements env result st = Inl OutOfFuel"
| "evaluate_statements (Suc n) [] env result st = Inr (result, st)"
| "evaluate_statements (Suc n) (statement # statements) env result st =
     (case evaluate n statement env st of
        Inl e \<Rightarrow> Inl e
      | Inr (v, st1) \<Rightarrow> evaluate_statements n statements env v st1)"

| "evaluate_elements 0 elements env st = Inl OutOfFuel"
| "evaluate_elements (Suc n) [] env st = Inr ([], st)"
| "evaluate_elements (Suc n) (element # elements) env st =
     (case evaluate n element env st of
        Inl e \<Rightarrow> Inl e
      | Inr (v, st1) \<Rightarrow>
          (case evaluate_elements n elements env st1 of
             Inl e \<Rightarrow> Inl e
           | Inr (vs, st2) \<Rightarrow> Inr (v # vs, st2)))"

| "each_loop 0 variable body env xs i result st = Inl OutOfFuel"
| "each_loop (Suc n) variable body env xs i result st =
     (if i < length xs \<and> i < maxIterations then
        (case new_Environment env st of
           (loopEnv, st1) \<Rightarrow>
             (case Environment_define loopEnv variable (xs ! i) st1 of
                Inl e \<Rightarrow> Inl e
              | Inr st2 \<Rightarrow>
                  (case evaluate n body loopEnv st2 of
                     Inl e \<Rightarrow> Inl e
                   | Inr (r, st3) \<Rightarrow> each_loop n variable body env xs (i + 1) r st3)))
      else Inr (result, st))"

| "as_loop 0 condition body env iterations result st = Inl OutOfFuel"
| "as_loop (Suc n) condition body env iterations result st =
     (case evaluate n condition env st of
        Inl e \<Rightarrow> Inl e
      | Inr (c, st1) \<Rightarrow>
          if isTruthy c then
            if iterations \<ge> maxIterations then Inl MaxIterationsExceeded
            else
              (case evaluate n body env st1 of
                 Inl e \<Rightarrow> Inl e
               | Inr (r, st2) \<Rightarrow> as_loop n condition body env (iterations + 1) r st2)
          else Inr (result, st1))"

| "call 0 fn args st = Inl OutOfFuel"
| "call (Suc n) fn args st =
     (case fn of
        Action params body env \<Rightarrow>
          (case enter_action params env args st of
             (actionEnv, st1) \<Rightarrow>
               (case evaluate_statements n body actionEnv Null st1 of
                  Inl e \<Rightarrow> Inl e
                | Inr (lastValue, st2) \<Rightarrow>
                    (case implicit_return actionEnv lastValue st2 of
                       Inl e \<Rightarrow> Inl e
                     | Inr v \<Rightarrow> Inr (v, st2))))
      | Builtin name \<Rightarrow> call_builtin name args st
      | _ \<Rightarrow> Inl NotAFunction)"
  by pat_completeness auto

text \<open>Every call passes on the fuel it received less one.\<close>

termination
  by (relation "measure (\<lambda>x. case x of
        Inl a \<Rightarrow> (case a of Inl p \<Rightarrow> fst p | Inr b \<Rightarrow> (case b of Inl p \<Rightarrow> fst p | Inr p \<Rightarrow> fst p))
      | Inr a \<Rightarrow> (case a of Inl p \<Rightarrow> fst p | Inr b \<Rightarrow> (case b of Inl p \<Rightarrow> fst p | Inr p \<Rightarrow> fst p)))")
     auto

definition initial_state :: state where
  \<comment> \<open>the constructor of Interpreter: the global environment, at address 0, binds every builtin\<close>
  "initial_state =
     \<lparr>frames = [\<lparr>variables = map (\<lambda>name. (name, Builtin name)) builtin_names, overrides = None\<rparr>],
      out = []\<rparr>"

definition globalEnv :: env where
  "globalEnv = [0]"

definition execute :: "nat \<Rightarrow> node \<Rightarrow> state \<Rightarrow> error + val \<times> state" where
  \<comment> \<open>\<open>execute(ast)\<close>; the state is kept between calls on one interpreter\<close>
  "execute n ast st = evaluate n ast globalEnv st"

section \<open>The scanner (lexer.js)\<close>

text \<open>
  The scanner reads \<open>this.input\<close> from \<open>this.position\<close> on. The model holds the input
  still to be read, and the line and column of its first character. A character is a
  code unit of the host string.

  \<open>KEYWORDS[id]\<close> is a property read on an object literal, so it also finds what every
  object inherits: for such an \<open>id\<close> the token's type is that inherited value, which is
  none of the token types. \<open>Inherited\<close> stands for it.
\<close>

datatype TokenType =
    CHECK | ELSE | EACH | AS | ACTION | END | IN
  | IDENTIFIER | NUMBER | STRING | BOOLEAN
  | PLUS | MINUS | MULTIPLY | DIVIDE | MODULO | ASSIGN | EQUAL | NOT_EQUAL
  | LESS_THAN | GREATER_THAN | LESS_EQUAL | GREATER_EQUAL | AND | OR | NOT
  | LPAREN | RPAREN | LBRACE | RBRACE | LBRACKET | RBRACKET | COMMA | DOT
  | NEWLINE | EOF
  | Inherited string

datatype Token = Token TokenType val nat nat

datatype lex_error =
    UnexpectedCharacter char nat nat
  | UnterminatedString nat nat

type_synonym position = "nat \<times> nat"

definition advance :: "char \<Rightarrow> position \<Rightarrow> position" where
  "advance c p = (if c = CHR 0x0A then (fst p + 1, 1) else (fst p, snd p + 1))"

definition is_digit :: "char \<Rightarrow> bool" where
  \<comment> \<open>\<open>/[0-9]/\<close>\<close>
  "is_digit c = (48 \<le> (of_char c :: nat) \<and> (of_char c :: nat) \<le> 57)"

definition is_identifier_start :: "char \<Rightarrow> bool" where
  \<comment> \<open>\<open>/[a-zA-Z_]/\<close>\<close>
  "is_identifier_start c =
     ((97 \<le> (of_char c :: nat) \<and> (of_char c :: nat) \<le> 122)
      \<or> (65 \<le> (of_char c :: nat) \<and> (of_char c :: nat) \<le> 90)
      \<or> c = CHR ''_'')"

definition is_identifier_part :: "char \<Rightarrow> bool" where
  \<comment> \<open>\<open>/[a-zA-Z0-9_]/\<close>\<close>
  "is_identifier_part c = (is_identifier_start c \<or> is_digit c)"

definition is_whitespace :: "char \<Rightarrow> bool" where
  \<comment> \<open>\<open>/[ \t\r]/\<close>\<close>
  "is_whitespace c = (c = CHR '' '' \<or> c = CHR 0x09 \<or> c = CHR 0x0D)"

fun skipWhitespace :: "string \<Rightarrow> position \<Rightarrow> string \<times> position" where
  "skipWhitespace [] p = ([], p)"
| "skipWhitespace (c # cs) p =
     (if is_whitespace c then skipWhitespace cs (advance c p) else (c # cs, p))"

fun skipComment :: "string \<Rightarrow> position \<Rightarrow> string \<times> position" where
  \<comment> \<open>the inner loop; tokenize has tested for the two slashes\<close>
  "skipComment [] p = ([], p)"
| "skipComment (c # cs) p =
     (if c \<noteq> CHR 0x0A then skipComment cs (advance c p) else (c # cs, p))"

definition digit_value :: "char \<Rightarrow> nat" where
  "digit_value c = of_char c - 48"

definition digits_value :: "string \<Rightarrow> nat" where
  "digits_value s = fold (\<lambda>c n. 10 * n + digit_value c) s 0"

definition parseFloat :: "string \<Rightarrow> rat" where
  \<comment> \<open>on the strings readNumber builds: digits, then possibly a point and digits. The
      host returns the double nearest to this decimal value.\<close>
  "parseFloat num =
     (let whole = takeWhile (\<lambda>c. c \<noteq> CHR ''.'') num;
          fraction = drop (length whole + 1) num
      in of_nat (digits_value whole) + of_nat (digits_value fraction) / 10 ^ length fraction)"

fun readNumber_loop :: "string \<Rightarrow> position \<Rightarrow> string \<Rightarrow> bool \<Rightarrow> string \<times> string \<times> position" where
  "readNumber_loop [] p num hasDecimal = (num, [], p)"
| "readNumber_loop (c # cs) p num hasDecimal =
     (if is_digit c \<or> (c = CHR ''.'' \<and> \<not> hasDecimal)
      then readNumber_loop cs (advance c p) (num @ [c]) (hasDecimal \<or> c = CHR ''.'')
      else (num, c # cs, p))"

definition readNumber :: "string \<Rightarrow> position \<Rightarrow> Token \<times> string \<times> position" where
  "readNumber input p =
     (case readNumber_loop input p [] False of
        (num, rest, p') \<Rightarrow> (Token NUMBER (Number (parseFloat num)) (fst p) (snd p), rest, p'))"

definition escape :: "char \<Rightarrow> char" where
  "escape next =
     (if next = CHR ''n'' then CHR 0x0A
      else if next = CHR ''t'' then CHR 0x09
      else if next = CHR ''r'' then CHR 0x0D
      else next)"

fun readString_loop :: "char \<Rightarrow> string \<Rightarrow> position \<Rightarrow> string \<Rightarrow> (string \<times> string \<times> position) option" where
  \<comment> \<open>\<open>None\<close>: the input ends before the closing quote\<close>
  "readString_loop quote [] p str = None"
| "readString_loop quote [c] p str =
     (if c = quote then Some (str, [], advance c p) else None)"
| "readString_loop quote (c # next # cs) p str =
     (if c = quote then Some (str, next # cs, advance c p)
      else if c = CHR 0x5C
      then readString_loop quote cs (advance next (advance c p)) (str @ [escape next])
      else readString_loop quote (next # cs) (advance c p) (str @ [c]))"

definition readString :: "string \<Rightarrow> position \<Rightarrow> lex_error + Token \<times> string \<times> position" where
  "readString input p =
     (case readString_loop (hd input) (tl input) (advance (hd input) p) [] of
        None \<Rightarrow> Inl (UnterminatedString (fst p) (snd p))
      | Some (str, rest, p') \<Rightarrow> Inr (Token STRING (Str str) (fst p) (snd p), rest, p'))"

fun readIdentifier_loop :: "string \<Rightarrow> position \<Rightarrow> string \<Rightarrow> string \<times> string \<times> position" where
  "readIdentifier_loop [] p ident = (ident, [], p)"
| "readIdentifier_loop (c # cs) p ident =
     (if is_identifier_part c then readIdentifier_loop cs (advance c p) (ident @ [c])
      else (ident, c # cs, p))"

definition KEYWORDS :: "string \<Rightarrow> TokenType option" where
  "KEYWORDS ident =
     (if ident = ''check'' then Some CHECK
      else if ident = ''else'' then Some ELSE
      else if ident = ''each'' then Some EACH
      else if ident = ''as'' then Some AS
      else if ident = ''action'' then Some ACTION
      else if ident = ''end'' then Some END
      else if ident = ''in'' then Some IN
      else if ident = ''true'' then Some BOOLEAN
      else if ident = ''false'' then Some BOOLEAN
      else if ident \<in> set object_prototype_names then Some (Inherited ident)
      else None)"

definition readIdentifier :: "string \<Rightarrow> position \<Rightarrow> Token \<times> string \<times> position" where
  "readIdentifier input p =
     (case readIdentifier_loop input p [] of
        (ident, rest, p') \<Rightarrow>
          (let type = (case KEYWORDS ident of Some t \<Rightarrow> t | None \<Rightarrow> IDENTIFIER);
               v = (if type = BOOLEAN then Boolean (ident = ''true'') else Str ident)
           in (Token type v (fst p) (snd p), rest, p')))"

definition twoChar :: "char \<Rightarrow> char \<Rightarrow> (TokenType \<times> string) option" where
  "twoChar c d =
     (if c = CHR ''='' \<and> d = CHR ''='' then Some (EQUAL, ''=='')
      else if c = CHR ''!'' \<and> d = CHR ''='' then Some (NOT_EQUAL, ''!='')
      else if c = CHR ''<'' \<and> d = CHR ''='' then Some (LESS_EQUAL, ''<='')
      else if c = CHR ''>'' \<and> d = CHR ''='' then Some (GREATER_EQUAL, ''>='')
      else if c = CHR ''&'' \<and> d = CHR ''&'' then Some (AND, ''&&'')
      else if c = CHR ''|'' \<and> d = CHR ''|'' then Some (OR, ''||'')
      else None)"

definition singleChar :: "char \<Rightarrow> TokenType option" where
  "singleChar c =
     (if c = CHR ''+'' then Some PLUS
      else if c = CHR ''-'' then Some MINUS
      else if c = CHR ''*'' then Some MULTIPLY
      else if c = CHR ''/'' then Some DIVIDE
      else if c = CHR ''%'' then Some MODULO
      else if c = CHR ''='' then Some ASSIGN
      else if c = CHR ''<'' then Some LESS_THAN
      else if c = CHR ''>'' then Some GREATER_THAN
      else if c = CHR ''!'' then Some NOT
      else if c = CHR ''('' then Some LPAREN
      else if c = CHR '')'' then Some RPAREN
      else if c = CHR ''{'' then Some LBRACE
      else if c = CHR ''}'' then Some RBRACE
      else if c = CHR ''['' then Some LBRACKET
      else if c = CHR '']'' then Some RBRACKET
      else if c = CHR '','' then Some COMMA
      else if c = CHR ''.'' then Some DOT
      else None)"

text \<open>Every reader leaves less input than it found; the main loop ends for that reason.\<close>

lemma length_skipWhitespace: "length (fst (skipWhitespace cs p)) \<le> length cs"
  by (induction cs arbitrary: p) (simp_all add: le_SucI)

lemma length_skipComment: "length (fst (skipComment cs p)) \<le> length cs"
  by (induction cs arbitrary: p) (simp_all add: le_SucI)

lemma length_readNumber_loop:
  "length (fst (snd (readNumber_loop cs p num dec))) \<le> length cs"
  by (induction cs arbitrary: p num dec) (simp_all add: le_SucI)

lemma length_readIdentifier_loop:
  "length (fst (snd (readIdentifier_loop cs p ident))) \<le> length cs"
  by (induction cs arbitrary: p ident) (simp_all add: le_SucI)

lemma length_readString_loop:
  "readString_loop q cs p str = Some (s, rest, p') \<Longrightarrow> length rest < length cs"
  by (induction q cs p str rule: readString_loop.induct) (auto split: if_splits)

lemma skipWhitespace_shorter:
  "(rest, p') = skipWhitespace input p \<Longrightarrow> length rest \<le> length input"
  using length_skipWhitespace [of input p] by (metis fst_conv)

lemma skipComment_shorter:
  "(rest, p') = skipComment (CHR ''/'' # cs) p \<Longrightarrow> length rest \<le> length cs"
  using length_skipComment [of cs "advance CHR ''/'' p"] by (simp flip: fst_def) (metis fst_conv)

lemma readNumber_shorter:
  "is_digit c \<Longrightarrow> (token, rest, p') = readNumber (c # cs) p \<Longrightarrow> length rest \<le> length cs"
  using length_readNumber_loop [of cs "advance c p" "[c]" "c = CHR ''.''"]
  by (auto simp: readNumber_def split: prod.splits)

lemma readString_shorter:
  "readString (c # cs) p = Inr (token, rest, p') \<Longrightarrow> length rest < length cs"
  by (auto simp: readString_def split: option.splits dest: length_readString_loop)

lemma readIdentifier_shorter:
  "is_identifier_start c \<Longrightarrow> (token, rest, p') = readIdentifier (c # cs) p \<Longrightarrow>
   length rest \<le> length cs"
  using length_readIdentifier_loop [of cs "advance c p" "[c]"]
  by (auto simp: readIdentifier_def is_identifier_part_def Let_def split: prod.splits)

function tokenize_loop :: "string \<Rightarrow> position \<Rightarrow> Token list \<Rightarrow> lex_error + Token list" where
  "tokenize_loop input p tokens =
     (if input = [] then Inr (tokens @ [Token EOF Null (fst p) (snd p)])
      else
        (case skipWhitespace input p of
           ([], p1) \<Rightarrow> Inr (tokens @ [Token EOF Null (fst p1) (snd p1)])
         | (c # cs, p1) \<Rightarrow>
             if c = CHR ''/'' \<and> cs \<noteq> [] \<and> hd cs = CHR ''/'' then
               (case skipComment (c # cs) p1 of (rest, p2) \<Rightarrow> tokenize_loop rest p2 tokens)
             else if c = CHR 0x0A then
               tokenize_loop cs (advance c p1) (tokens @ [Token NEWLINE (Str [c]) (fst p1) (snd p1)])
             else if is_digit c then
               (case readNumber (c # cs) p1 of
                  (token, rest, p2) \<Rightarrow> tokenize_loop rest p2 (tokens @ [token]))
             else if c = CHR 0x22 \<or> c = CHR 0x27 then
               (case readString (c # cs) p1 of
                  Inl e \<Rightarrow> Inl e
                | Inr (token, rest, p2) \<Rightarrow> tokenize_loop rest p2 (tokens @ [token]))
             else if is_identifier_start c then
               (case readIdentifier (c # cs) p1 of
                  (token, rest, p2) \<Rightarrow> tokenize_loop rest p2 (tokens @ [token]))
             else
               (case (if cs = [] then None else twoChar c (hd cs)) of
                  Some (type, text) \<Rightarrow>
                    tokenize_loop (tl cs) (advance (hd cs) (advance c p1))
                      (tokens @ [Token type (Str text) (fst p1) (snd p1)])
                | None \<Rightarrow>
                    (case singleChar c of
                       Some type \<Rightarrow>
                         tokenize_loop cs (advance c p1)
                           (tokens @ [Token type (Str [c]) (fst p1) (snd p1)])
                     | None \<Rightarrow> Inl (UnexpectedCharacter c (fst p1) (snd p1))))))"
  by pat_completeness auto

termination
proof (relation "measure (\<lambda>(input, p, tokens). length input)", goal_cases)
  case 1
  show ?case by simp
next
  case (2 input p tokens x y c cs rest p2)
  then show ?case
    using skipWhitespace_shorter [of x y input p] skipComment_shorter [of rest p2 cs y]
    by simp
next
  case (3 input p tokens x y c cs)
  then show ?case
    using skipWhitespace_shorter [of x y input p] by simp
next
  case (4 input p tokens x y c cs token ya rest p2)
  then show ?case
    using skipWhitespace_shorter [of x y input p] readNumber_shorter [of c token rest p2 cs y]
    by simp
next
  case (5 input p tokens x y c cs b token ya rest p2)
  then show ?case
    using skipWhitespace_shorter [of x y input p] readString_shorter [of c cs y token rest p2]
    by simp
next
  case (6 input p tokens x y c cs token ya rest p2)
  then show ?case
    using skipWhitespace_shorter [of x y input p]
      readIdentifier_shorter [of c token rest p2 cs y]
    by simp
next
  case (7 input p tokens x y c cs ty)
  then show ?case
    using skipWhitespace_shorter [of x y input p] by simp
next
  case (8 input p tokens x y c cs x2 ty tx)
  then show ?case
    using skipWhitespace_shorter [of x y input p] by simp
qed

definition tokenize :: "string \<Rightarrow> lex_error + Token list" where
  \<comment> \<open>\<open>new Lexer(input).tokenize()\<close>\<close>
  "tokenize input = tokenize_loop input (1, 1) []"

section \<open>Example states and programs\<close>

text \<open>
  The state in which the body of the loop runs in

  \<^verbatim>\<open>g = 0  action f(arr)  each (x in arr) g = x end  end  f([7])\<close>

  restricted to the names of the program: frame 0 is the global scope, frame 1 the scope
  of the call of \<open>f\<close>, frame 2 the scope of the iteration.
\<close>

definition scope_example :: state where
  "scope_example =
     \<lparr>frames = [\<lparr>variables = [(''g'', Number 0)], overrides = None\<rparr>,
                \<lparr>variables = [(''arr'', Array [Number 7])], overrides = Some ([''arr''], [])\<rparr>,
                \<lparr>variables = [(''x'', Number 7)], overrides = None\<rparr>],
      out = []\<rparr>"

text \<open>
  \<^verbatim>\<open>action calculate(a, b)  sum = a + b  diff = a - b  prod = a * b  end\<close>
\<close>

definition calculate_body :: "node list" where
  "calculate_body =
     [NodeDeclaration ''sum'' (BinaryExpression ''+'' (Identifier ''a'') (Identifier ''b'')),
      NodeDeclaration ''diff'' (BinaryExpression ''-'' (Identifier ''a'') (Identifier ''b'')),
      NodeDeclaration ''prod'' (BinaryExpression ''*'' (Identifier ''a'') (Identifier ''b''))]"

text \<open>
  \<^verbatim>\<open>g = 0  action f(arr)  each (x in arr) g = x end  a = 1  end  f([7])\<close>
\<close>

definition nested_loop_program :: node where
  "nested_loop_program =
     Program
       [NodeDeclaration ''g'' (Literal (LNum 0)),
        ActionDeclaration ''f'' [''arr'']
          [EachStatement ''x'' (Identifier ''arr'')
             (BlockStatement [NodeDeclaration ''g'' (Identifier ''x'')]),
           NodeDeclaration ''a'' (Literal (LNum 1))],
        CallExpression (Identifier ''f'') [ArrayExpression [Literal (LNum 7)]]]"

text \<open>
  \<^verbatim>\<open>sum = 0  each (item in [1, 2, 3]) sum = sum + item end\<close>
\<close>

definition each_sum_program :: node where
  "each_sum_program =
     Program
       [NodeDeclaration ''sum'' (Literal (LNum 0)),
        EachStatement ''item''
          (ArrayExpression [Literal (LNum 1), Literal (LNum 2), Literal (LNum 3)])
          (BlockStatement
             [NodeDeclaration ''sum''
                (BinaryExpression ''+'' (Identifier ''sum'') (Identifier ''item''))])]"

text \<open>
  \<^verbatim>\<open>x = 0  each (x in [1, 2]) x = 5 end\<close>
\<close>

definition shadow_program :: node where
  "shadow_program =
     Program
       [NodeDeclaration ''x'' (Literal (LNum 0)),
        EachStatement ''x'' (ArrayExpression [Literal (LNum 1), Literal (LNum 2)])
          (BlockStatement [NodeDeclaration ''x'' (Literal (LNum 5))])]"

definition global_binding :: "string \<Rightarrow> error + val \<times> state \<Rightarrow> error + val option" where
  \<comment> \<open>what the global scope binds a name to, once a program has run\<close>
  "global_binding name result =
     (case result of
        Inl e \<Rightarrow> Inl e
      | Inr (v, st) \<Rightarrow> Inr (map_of (variables (frames st ! 0)) name))"

definition result_value :: "error + val \<times> state \<Rightarrow> error + val" where
  "result_value result = (case result of Inl e \<Rightarrow> Inl e | Inr (v, st) \<Rightarrow> Inr v)"

text \<open>A global scope that binds \<open>sum\<close> to 0 and nothing else, and the body \<open>sum = sum + item\<close>.\<close>

definition sum_state :: state where
  "sum_state = \<lparr>frames = [\<lparr>variables = [(''sum'', Number 0)], overrides = None\<rparr>], out = []\<rparr>"

definition sum_body :: node where
  "sum_body =
     BlockStatement
       [NodeDeclaration ''sum'' (BinaryExpression ''+'' (Identifier ''sum'') (Identifier ''item''))]"

text \<open>
  The body \<open>print(item)\<close>, the loop \<open>each (item in arr) print(item) end\<close>, and the
  interpreter's first state with \<open>arr\<close> bound to an array in the global scope.
\<close>

definition print_body :: node where
  "print_body = BlockStatement [CallExpression (Identifier ''print'') [Identifier ''item'']]"

definition print_loop :: node where
  "print_loop = EachStatement ''item'' (Identifier ''arr'') print_body"

definition array_state :: "val list \<Rightarrow> state" where
  "array_state xs = variables_set 0 ''arr'' (Array xs) initial_state"

text \<open>\<^verbatim>\<open>as (true) end\<close>\<close>

definition forever_loop :: node where
  "forever_loop = AsStatement (Literal (LBool True)) (BlockStatement [])"

definition prints :: "state \<Rightarrow> bool" where
  \<comment> \<open>the global scope is there and binds \<open>print\<close> to the builtin\<close>
  "prints st = (0 < length (frames st)
     \<and> map_of (variables (frames st ! 0)) ''print'' = Some (Builtin ''print''))"

section \<open>What an evaluation step may do to a frame\<close>

text \<open>
  \<open>frame_step local f f'\<close> relates a frame before and after some evaluation. No name is
  unbound. A frame with the methods of the class keeps them, and keeps its set of names
  unless it is the local frame of the evaluation (\<open>local\<close>). The scope of an action call
  keeps its parameters and only appends to \<open>assignedVars\<close>: names that were not there,
  each once, each bound in the frame.
\<close>

definition keys :: "frame \<Rightarrow> string set" where
  "keys f = fst ` set (variables f)"

definition frame_step :: "bool \<Rightarrow> frame \<Rightarrow> frame \<Rightarrow> bool" where
  "frame_step local f f' =
     (keys f \<subseteq> keys f' \<and>
      (case overrides f of
         None \<Rightarrow> overrides f' = None \<and> (\<not> local \<longrightarrow> keys f' = keys f)
       | Some (params, names) \<Rightarrow>
           (\<exists>new. overrides f' = Some (params, names @ new) \<and> set new \<subseteq> keys f'
              \<and> set new \<inter> set names = {} \<and> distinct new)))"

definition state_step :: "env \<Rightarrow> state \<Rightarrow> state \<Rightarrow> bool" where
  "state_step env st st' =
     (length (frames st) \<le> length (frames st') \<and>
      (\<forall>a < length (frames st).
         frame_step (env \<noteq> [] \<and> a = hd env) (frames st ! a) (frames st' ! a)))"

section \<open>Frames under the state operations\<close>

lemma nth_variables_set:
  "frames (variables_set a name v st) ! b =
     (if b = a \<and> a < length (frames st)
      then (frames st ! a)\<lparr>variables := AList.update name v (variables (frames st ! a))\<rparr>
      else frames st ! b)"
  by (cases "a < length (frames st)")
     (simp_all add: variables_set_def nth_list_update list_update_beyond)

lemma length_variables_set [simp]:
  "length (frames (variables_set a name v st)) = length (frames st)"
  by (simp add: variables_set_def)

lemma out_variables_set [simp]: "out (variables_set a name v st) = out st"
  by (simp add: variables_set_def)

lemma bound_variables_set:
  "bound (variables_set a name v st) b n =
     (bound st b n \<or> (b = a \<and> n = name \<and> a < length (frames st)))"
  by (auto simp: bound_def nth_variables_set update_conv')

lemma value_variables_set:
  "map_of (variables (frames (variables_set a name v st) ! b)) n =
     (if b = a \<and> n = name \<and> a < length (frames st) then Some v
      else map_of (variables (frames st ! b)) n)"
  by (auto simp: nth_variables_set update_conv')

lemma overrides_variables_set [simp]:
  "overrides (frames (variables_set a name v st) ! b) = overrides (frames st ! b)"
  by (simp add: nth_variables_set)

lemma Environment_get_find:
  "Environment_get env name st =
     (case find (\<lambda>a. bound st a name) env of
        None \<Rightarrow> Inl (UndefinedVariable name)
      | Some a \<Rightarrow> Inr (the (map_of (variables (frames st ! a)) name)))"
  by (induction env) (auto simp: bound_def split: option.splits)

lemma Environment_set_find:
  "Environment_set env name v st =
     (case find (\<lambda>a. overrides (frames st ! a) \<noteq> None \<or> bound st a name) env of
        None \<Rightarrow> Inl (UndefinedVariable name)
      | Some a \<Rightarrow>
          (case overrides (frames st ! a) of
             None \<Rightarrow> Inr (variables_set a name v st)
           | Some (params, assigned) \<Rightarrow> Inr (action_define a params assigned name v st)))"
  by (induction env) (auto split: option.splits)

lemma Environment_has_find:
  "Environment_has env name st = (find (\<lambda>a. bound st a name) env \<noteq> None)"
  by (induction env) auto


section \<open>Every evaluation is such a step\<close>

lemma bound_keys: "bound st a name = (name \<in> keys (frames st ! a))"
  by (simp add: bound_def keys_def map_of_eq_None_iff)

lemma frame_step_refl: "frame_step local f f"
  by (auto simp: frame_step_def split: option.splits)

lemma frame_step_weaken: "frame_step False f f' \<Longrightarrow> frame_step local f f'"
  by (auto simp: frame_step_def split: option.splits)

lemma frame_step_trans:
  "frame_step local f f' \<Longrightarrow> frame_step local f' f'' \<Longrightarrow> frame_step local f f''"
  unfolding frame_step_def
  by (cases "overrides f") (auto split: option.splits; blast)+

lemma state_step_refl: "state_step env st st"
  by (simp add: state_step_def frame_step_refl)

lemma state_step_weaken: "state_step [] st st' \<Longrightarrow> state_step env st st'"
  by (auto simp: state_step_def intro: frame_step_weaken)

lemma state_step_trans:
  "state_step env st st' \<Longrightarrow> state_step env st' st'' \<Longrightarrow> state_step env st st''"
  unfolding state_step_def
  by (auto intro: frame_step_trans)

lemma state_step_then_strong:
  "state_step env st st' \<Longrightarrow> state_step [] st' st'' \<Longrightarrow> state_step env st st''"
  by (blast intro: state_step_trans state_step_weaken)

lemma state_step_fresh:
  "state_step (h # env) st st' \<Longrightarrow> length (frames st) \<le> h \<Longrightarrow> state_step [] st st'"
  by (auto simp: state_step_def)

lemma keys_update: "keys (f\<lparr>variables := AList.update name v (variables f)\<rparr>) = insert name (keys f)"
  by (simp add: keys_def dom_update)


lemma nth_action_define:
  "frames (action_define a params names name v st) ! b =
     (if b = a \<and> a < length (frames st)
      then \<lparr>variables = AList.update name v (variables (frames st ! a)),
            overrides = (if name \<in> set params then overrides (frames st ! a)
                         else Some (params, assignedVars_add name names))\<rparr>
      else frames st ! b)"
  by (auto simp: action_define_def nth_variables_set list_update_beyond)

lemma length_action_define [simp]:
  "length (frames (action_define a params names name v st)) = length (frames st)"
  by (simp add: action_define_def)

lemma state_step_variables_set:
  "(env \<noteq> [] \<and> a = hd env) \<or> bound st a name \<or> overrides (frames st ! a) \<noteq> None \<Longrightarrow>
   state_step env st (variables_set a name v st)"
  by (auto simp: state_step_def nth_variables_set frame_step_def keys_update bound_keys
           split: option.splits)

lemma state_step_action_define:
  "overrides (frames st ! a) = Some (params, names) \<Longrightarrow>
   state_step env st (action_define a params names name v st)"
  by (auto simp: state_step_def nth_action_define frame_step_def keys_def dom_update
        assignedVars_add_def split: option.splits)

lemma state_step_Environment_define:
  "Environment_define env name v st = Inr st' \<Longrightarrow> state_step env st st'"
  by (cases env)
     (auto split: option.splits intro: state_step_variables_set state_step_action_define)

lemma state_step_Environment_set:
  "Environment_set env name v st = Inr st' \<Longrightarrow> state_step env' st st'"
  by (induction env)
     (auto split: option.splits if_splits
           intro: state_step_variables_set state_step_action_define)

lemma state_step_declare_node:
  "declare_node env name v st = Inr st' \<Longrightarrow> state_step env st st'"
  unfolding declare_node_def
  by (cases env)
     (auto simp del: Environment_set.simps Environment_define.simps split: if_splits
           intro: state_step_variables_set state_step_Environment_set
                  state_step_Environment_define)

lemma state_step_append: "frames st' = frames st @ fs \<Longrightarrow> state_step [] st st'"
  by (simp add: state_step_def nth_append frame_step_refl)

lemma frames_bind_params:
  assumes "a < length (frames st)"
  shows "\<exists>f. frames (bind_params a params args st) = (frames st)[a := f]"
proof -
  have "\<exists>f. frames (fold (\<lambda>i. variables_set a (params ! i) (argument args i)) is st) =
          (frames st)[a := f]" if "a < length (frames st)" for "is"
    using that
  proof (induction "is" arbitrary: st)
    case Nil
    then show ?case by (metis fold_simps(1) list_update_id)
  next
    case (Cons i "is")
    obtain f where "frames (fold (\<lambda>i. variables_set a (params ! i) (argument args i)) is
                      (variables_set a (params ! i) (argument args i) st)) =
                    (frames (variables_set a (params ! i) (argument args i) st))[a := f]"
      using Cons.IH [of "variables_set a (params ! i) (argument args i) st"] Cons.prems
      by auto
    moreover have "\<exists>g. frames (variables_set a (params ! i) (argument args i) st) =
        (frames st)[a := g]"
      by (auto simp: variables_set_def)
    ultimately show ?case
      by auto
  qed
  then show ?thesis
    using assms by (simp add: bind_params_def)
qed

lemma enter_action_frames:
  assumes "enter_action params env args st = (actionEnv, st0)"
  shows "actionEnv = length (frames st) # env"
    and "\<exists>f. frames st0 = frames st @ [f] \<and> overrides f = Some (params, [])"
    and "out st0 = out st"
proof -
  obtain st1 where new: "new_Environment env st = (actionEnv, st1)"
    and st0: "st0 = install_overrides (hd actionEnv) params
                (bind_params (hd actionEnv) params args st1)"
    using assms by (auto simp: enter_action_def split: prod.splits)
  from new show a: "actionEnv = length (frames st) # env"
    by (auto simp: new_Environment_def)
  from new have st1: "frames st1 = frames st @ [\<lparr>variables = [], overrides = None\<rparr>]"
    and out1: "out st1 = out st"
    by (auto simp: new_Environment_def)
  then obtain f where "frames (bind_params (hd actionEnv) params args st1) =
      (frames st1)[length (frames st) := f]"
    using frames_bind_params [of "length (frames st)" st1 params args] a by auto
  then have "frames st0 = frames st @ [f\<lparr>overrides := Some (params, [])\<rparr>]"
    using a st1 st0 by (simp add: install_overrides_def)
  then show "\<exists>f. frames st0 = frames st @ [f] \<and> overrides f = Some (params, [])"
    by simp
  have "out (fold f is s) = out s" if "\<And>i s. out (f i s) = out s"
    for f :: "nat \<Rightarrow> state \<Rightarrow> state" and "is" s
    using that by (induction "is" arbitrary: s) simp_all
  then show "out st0 = out st"
    using st0 out1 by (simp add: install_overrides_def bind_params_def)
qed

lemma state_step_enter_action:
  "enter_action params env args st = (actionEnv, st0) \<Longrightarrow> state_step [] st st0"
  using enter_action_frames(2) [of params env args st actionEnv st0]
  by (auto intro: state_step_append)

lemma frames_call_builtin:
  "call_builtin name args st = Inr (v, st') \<Longrightarrow> frames st' = frames st"
  by (auto simp: call_builtin_def split: if_splits val.splits)


lemma evaluate_state_step_all:
  "(\<forall>node env st v st'. evaluate n node env st = Inr (v, st') \<longrightarrow> state_step env st st')
   \<and> (\<forall>stmts env r st v st'.
         evaluate_statements n stmts env r st = Inr (v, st') \<longrightarrow> state_step env st st')
   \<and> (\<forall>els env st vs st'.
         evaluate_elements n els env st = Inr (vs, st') \<longrightarrow> state_step env st st')
   \<and> (\<forall>var body env xs i r st v st'.
         each_loop n var body env xs i r st = Inr (v, st') \<longrightarrow> state_step [] st st')
   \<and> (\<forall>c body env k r st v st'.
         as_loop n c body env k r st = Inr (v, st') \<longrightarrow> state_step env st st')
   \<and> (\<forall>fn args st v st'. call n fn args st = Inr (v, st') \<longrightarrow> state_step [] st st')"
proof (induction n)
  case 0
  show ?case by simp
next
  case (Suc n)
  note ev = Suc [THEN conjunct1, rule_format]
    and evs = Suc [THEN conjunct2, THEN conjunct1, rule_format]
    and eve = Suc [THEN conjunct2, THEN conjunct2, THEN conjunct1, rule_format]
    and el = Suc [THEN conjunct2, THEN conjunct2, THEN conjunct2, THEN conjunct1, rule_format]
    and al = Suc [THEN conjunct2, THEN conjunct2, THEN conjunct2, THEN conjunct2,
               THEN conjunct1, rule_format]
    and ca = Suc [THEN conjunct2, THEN conjunct2, THEN conjunct2, THEN conjunct2,
               THEN conjunct2, rule_format]
  have 1: "state_step env st st'" if "evaluate (Suc n) node env st = Inr (v, st')"
    for node env st v st'
  proof (cases node)
    case (Program x1)
    then show ?thesis using that evs by simp
  next
    case (NodeDeclaration x21 x22)
    then show ?thesis using that
      by (auto split: sum.splits dest!: ev state_step_declare_node;
          blast intro: state_step_trans state_step_then_strong)
  next
    case (ActionDeclaration x31 x32 x33)
    then show ?thesis using that
      by (auto split: sum.splits dest!: state_step_Environment_define)
  next
    case (CheckStatement x41 x42 x43)
    then show ?thesis using that
      by (auto split: sum.splits if_splits option.splits dest!: ev;
          blast intro: state_step_trans state_step_then_strong)
  next
    case (EachStatement x51 x52 x53)
    then show ?thesis using that
      by (auto split: sum.splits val.splits dest!: ev el;
          blast intro: state_step_trans state_step_then_strong)
  next
    case (AsStatement x61 x62)
    then show ?thesis using that al by simp
  next
    case (BlockStatement x7)
    then show ?thesis using that evs by simp
  next
    case (BinaryExpression x81 x82 x83)
    then show ?thesis using that
      by (auto split: sum.splits dest!: ev;
          blast intro: state_step_trans state_step_then_strong)
  next
    case (UnaryExpression x91 x92)
    then show ?thesis using that
      by (auto split: sum.splits dest!: ev)
  next
    case (CallExpression x101 x102)
    then show ?thesis using that
      by (auto split: sum.splits val.splits dest!: ev eve ca;
          blast intro: state_step_trans state_step_then_strong)
  next
    case (MemberExpression x111 x112 x113)
    then show ?thesis using that
      by (auto split: sum.splits if_splits node.splits dest!: ev;
          blast intro: state_step_trans state_step_then_strong)
  next
    case (ArrayExpression x12)
    then show ?thesis using that
      by (auto split: sum.splits dest!: eve)
  next
    case (Identifier x13)
    then show ?thesis using that
      by (auto split: sum.splits simp: state_step_refl)
  next
    case (Literal x14)
    then show ?thesis using that
      by (auto simp: state_step_refl)
  qed
  have 2: "state_step env st st'" if "evaluate_statements (Suc n) stmts env r st = Inr (v, st')"
    for stmts env r st v st'
  proof (cases stmts)
    case Nil
    then show ?thesis using that by (simp add: state_step_refl)
  next
    case (Cons s ss)
    with that obtain w st1 where "evaluate n s env st = Inr (w, st1)"
      and "evaluate_statements n ss env w st1 = Inr (v, st')"
      by (auto split: sum.splits)
    then have "state_step env st st1" and "state_step env st1 st'"
      by (auto dest: ev evs)
    then show ?thesis
      by (rule state_step_trans)
  qed
  have 3: "state_step env st st'" if "evaluate_elements (Suc n) els env st = Inr (vs, st')"
    for els env st vs st'
  proof (cases els)
    case Nil
    then show ?thesis using that by (simp add: state_step_refl)
  next
    case (Cons s ss)
    with that obtain w st1 ws where "evaluate n s env st = Inr (w, st1)"
      and "evaluate_elements n ss env st1 = Inr (ws, st')"
      by (auto split: sum.splits)
    then have "state_step env st st1" and "state_step env st1 st'"
      by (auto dest: ev eve)
    then show ?thesis
      by (rule state_step_trans)
  qed
  have 4: "state_step [] st st'" if "each_loop (Suc n) var body env xs i r st = Inr (v, st')"
    for var body env xs i r st v st'
  proof (cases "i < length xs \<and> i < maxIterations")
    case False
    then show ?thesis using that by (auto simp: state_step_refl)
  next
    case True
    obtain loopEnv st1 where new: "new_Environment env st = (loopEnv, st1)"
      by (cases "new_Environment env st")
    then have h: "loopEnv = length (frames st) # env"
      and fr: "frames st1 = frames st @ [\<lparr>variables = [], overrides = None\<rparr>]"
      by (auto simp: new_Environment_def)
    from that True new obtain st2 r' st3 where
      d: "Environment_define loopEnv var (xs ! i) st1 = Inr st2" and
      b: "evaluate n body loopEnv st2 = Inr (r', st3)" and
      l: "each_loop n var body env xs (i + 1) r' st3 = Inr (v, st')"
      by (auto split: sum.splits)
    have s1: "state_step [] st st1"
      using fr by (rule state_step_append)
    have "state_step loopEnv st1 st2"
      using d by (rule state_step_Environment_define)
    then have "state_step loopEnv st1 st3"
      using ev [OF b] by (rule state_step_trans)
    then have "state_step loopEnv st st3"
      using s1 state_step_weaken state_step_trans by blast
    then have "state_step [] st st3"
      unfolding h by (rule state_step_fresh) simp
    then show ?thesis
      using el [OF l] by (rule state_step_trans)
  qed
  have 5: "state_step env st st'" if "as_loop (Suc n) c body env k r st = Inr (v, st')"
    for c body env k r st v st'
  proof -
    from that obtain cv st1 where c: "evaluate n c env st = Inr (cv, st1)"
      by (auto split: sum.splits)
    show ?thesis
    proof (cases "isTruthy cv")
      case False
      then show ?thesis using that c ev by auto
    next
      case True
      with that c obtain w st2 where "evaluate n body env st1 = Inr (w, st2)"
        and "as_loop n c body env (k + 1) w st2 = Inr (v, st')"
        by (auto split: sum.splits if_splits)
      then have "state_step env st1 st2" and "state_step env st2 st'"
        by (auto dest: ev al)
      moreover have "state_step env st st1"
        using c by (rule ev)
      ultimately show ?thesis
        by (blast intro: state_step_trans)
    qed
  qed
  have 6: "state_step [] st st'" if "call (Suc n) fn args st = Inr (v, st')"
    for fn args st v st'
  proof (cases fn)
    case (Action params body env)
    obtain actionEnv st0 where enter: "enter_action params env args st = (actionEnv, st0)"
      by (cases "enter_action params env args st")
    from that Action enter obtain lastValue where
      b: "evaluate_statements n body actionEnv Null st0 = Inr (lastValue, st')"
      by (auto split: sum.splits)
    have h: "actionEnv = length (frames st) # env"
      using enter by (rule enter_action_frames)
    have s0: "state_step [] st st0"
      using enter by (rule state_step_enter_action)
    have "state_step actionEnv st0 st'"
      using b by (rule evs)
    then have "state_step actionEnv st st'"
      using s0 state_step_weaken state_step_trans by blast
    then show ?thesis
      unfolding h by (rule state_step_fresh) simp
  next
    case (Builtin name)
    then have "frames st' = frames st"
      using that by (auto dest: frames_call_builtin)
    then show ?thesis
      by (simp add: state_step_def frame_step_refl)
  qed (use that in auto)
  show ?case
    by (intro conjI allI impI) (erule 1 2 3 4 5 6)+
qed

lemmas evaluate_step = evaluate_state_step_all [THEN conjunct1, rule_format]
lemmas evaluate_statements_step =
  evaluate_state_step_all [THEN conjunct2, THEN conjunct1, rule_format]
lemmas each_loop_step =
  evaluate_state_step_all [THEN conjunct2, THEN conjunct2, THEN conjunct2, THEN conjunct1,
    rule_format]
lemmas call_step =
  evaluate_state_step_all [THEN conjunct2, THEN conjunct2, THEN conjunct2, THEN conjunct2,
    THEN conjunct2, rule_format]

lemma state_step_assignedVars:
  assumes "state_step env st st'" and "a < length (frames st)"
  shows "\<exists>new. assignedVars a st' = assignedVars a st @ new
           \<and> set new \<inter> set (assignedVars a st) = {} \<and> distinct new
           \<and> (\<forall>x \<in> set new. bound st' a x)"
proof -
  have "frame_step (env \<noteq> [] \<and> a = hd env) (frames st ! a) (frames st' ! a)"
    using assms by (simp add: state_step_def)
  then show ?thesis
    by (cases "overrides (frames st ! a)")
       (auto simp: frame_step_def assignedVars_def bound_keys)
qed

lemmas evaluator_simps = evaluate.simps evaluate_statements.simps evaluate_elements.simps
  each_loop.simps as_loop.simps call.simps


section \<open>Assignment through a chain of scopes\<close>

lemma Environment_set_through_loops:
  assumes "\<forall>l \<in> set loops. overrides (frames st ! l) = None \<and> \<not> bound st l name"
  shows "Environment_set (loops @ env) name v st = Environment_set env name v st"
  using assms by (induction loops) auto

lemma Environment_set_in_loops:
  assumes "\<forall>l \<in> set loops. overrides (frames st ! l) = None"
    and "find (\<lambda>l. bound st l name) loops = Some l"
  shows "Environment_set (loops @ env) name v st = Inr (variables_set l name v st)"
  using assms by (induction loops) (auto split: if_splits)

lemma Environment_has_append:
  "Environment_has (xs @ ys) name st =
     (find (\<lambda>l. bound st l name) xs \<noteq> None \<or> Environment_has ys name st)"
  by (induction xs) auto

lemma assignedVars_variables_set [simp]:
  "assignedVars a (variables_set l name v st) = assignedVars a st"
  by (simp add: assignedVars_def)

lemma assignedVars_action_define:
  "a < length (frames st) \<Longrightarrow>
   assignedVars a (action_define a params names name v st) =
     (if name \<in> set params then assignedVars a st else assignedVars_add name names)"
  by (simp add: assignedVars_def nth_action_define)

lemma bound_action_define:
  "a < length (frames st) \<Longrightarrow> bound (action_define a params names name v st) a name"
  by (simp add: bound_def nth_action_define update_conv')

lemma declare_node_plain:
  assumes "\<forall>a \<in> set (l # env). overrides (frames st ! a) = None"
  shows "declare_node (l # env) name v st =
     Inr (variables_set (case find (\<lambda>a. bound st a name) (l # env) of Some a \<Rightarrow> a | None \<Rightarrow> l)
            name v st)"
proof (cases "bound st l name")
  case True
  then show ?thesis by (simp add: declare_node_def)
next
  case False
  have plain: "\<forall>a \<in> set env. overrides (frames st ! a) = None"
    and l: "overrides (frames st ! l) = None"
    using assms by simp_all
  have set: "Environment_set env name v st =
      (case find (\<lambda>a. bound st a name) env of
         None \<Rightarrow> Inl (UndefinedVariable name)
       | Some a \<Rightarrow> Inr (variables_set a name v st))"
    using plain by (induction env) auto
  show ?thesis
  proof (cases "find (\<lambda>a. bound st a name) env")
    case None
    then have "\<not> Environment_has env name st"
      by (simp add: Environment_has_find)
    then show ?thesis
      using False None l by (simp add: declare_node_def)
  next
    case (Some a)
    then have "Environment_has env name st" and "env \<noteq> []"
      by (auto simp: Environment_has_find)
    then show ?thesis
      using False Some l set by (simp add: declare_node_def)
  qed
qed

lemma state_step_plain_bound:
  assumes "state_step [] st st'" and "e < length (frames st)"
    and "overrides (frames st ! e) = None"
  shows "bound st' e name = bound st e name" and "overrides (frames st' ! e) = None"
proof -
  have "frame_step False (frames st ! e) (frames st' ! e)"
    using assms(1,2) by (simp add: state_step_def)
  then show "bound st' e name = bound st e name" and "overrides (frames st' ! e) = None"
    using assms(3) by (simp_all add: frame_step_def bound_keys)
qed


section \<open>More fuel changes nothing\<close>

text \<open>
  The fuel bounds the depth of the evaluation. An evaluation that ends with a value or
  with an error of the program ends the same way with any larger amount of fuel.
\<close>

lemma fuel_Suc_all:
  "(\<forall>node env st. evaluate n node env st \<noteq> Inl OutOfFuel \<longrightarrow>
       evaluate (Suc n) node env st = evaluate n node env st)
   \<and> (\<forall>stmts env r st. evaluate_statements n stmts env r st \<noteq> Inl OutOfFuel \<longrightarrow>
       evaluate_statements (Suc n) stmts env r st = evaluate_statements n stmts env r st)
   \<and> (\<forall>els env st. evaluate_elements n els env st \<noteq> Inl OutOfFuel \<longrightarrow>
       evaluate_elements (Suc n) els env st = evaluate_elements n els env st)
   \<and> (\<forall>var body env xs i r st. each_loop n var body env xs i r st \<noteq> Inl OutOfFuel \<longrightarrow>
       each_loop (Suc n) var body env xs i r st = each_loop n var body env xs i r st)
   \<and> (\<forall>c body env k r st. as_loop n c body env k r st \<noteq> Inl OutOfFuel \<longrightarrow>
       as_loop (Suc n) c body env k r st = as_loop n c body env k r st)
   \<and> (\<forall>fn args st. call n fn args st \<noteq> Inl OutOfFuel \<longrightarrow>
       call (Suc n) fn args st = call n fn args st)"
proof (induction n)
  case 0
  show ?case by simp
next
  case (Suc n)
  note ev = Suc [THEN conjunct1, rule_format]
    and evs = Suc [THEN conjunct2, THEN conjunct1, rule_format]
    and eve = Suc [THEN conjunct2, THEN conjunct2, THEN conjunct1, rule_format]
    and el = Suc [THEN conjunct2, THEN conjunct2, THEN conjunct2, THEN conjunct1, rule_format]
    and al = Suc [THEN conjunct2, THEN conjunct2, THEN conjunct2, THEN conjunct2,
               THEN conjunct1, rule_format]
    and ca = Suc [THEN conjunct2, THEN conjunct2, THEN conjunct2, THEN conjunct2,
               THEN conjunct2, rule_format]
  note IH = ev evs eve el al ca
  have 1: "evaluate (Suc (Suc n)) node env st = evaluate (Suc n) node env st"
    if "evaluate (Suc n) node env st \<noteq> Inl OutOfFuel" for node env st
  proof (cases node)
    case (Program x1)
    then show ?thesis using that by (simp add: IH del: evaluate_statements.simps)
  next
    case (NodeDeclaration x21 x22)
    then show ?thesis using that
      by (auto simp: IH split: sum.splits)
  next
    case (ActionDeclaration x31 x32 x33)
    then show ?thesis by simp
  next
    case (CheckStatement x41 x42 x43)
    then show ?thesis using that
      by (auto simp: IH split: sum.splits if_splits option.splits)
  next
    case (EachStatement x51 x52 x53)
    then show ?thesis using that
      by (auto simp: IH split: sum.splits val.splits simp del: each_loop.simps)
  next
    case (AsStatement x61 x62)
    then show ?thesis using that by (simp add: IH del: as_loop.simps)
  next
    case (BlockStatement x7)
    then show ?thesis using that by (simp add: IH del: evaluate_statements.simps)
  next
    case (BinaryExpression x81 x82 x83)
    then show ?thesis using that
      by (auto simp: IH split: sum.splits)
  next
    case (UnaryExpression x91 x92)
    then show ?thesis using that
      by (auto simp: IH split: sum.splits)
  next
    case (CallExpression x101 x102)
    then show ?thesis using that
      by (auto simp: IH split: sum.splits val.splits
            simp del: call.simps evaluate_elements.simps)
  next
    case (MemberExpression x111 x112 x113)
    then show ?thesis using that
      by (auto simp: IH split: sum.splits if_splits node.splits)
  next
    case (ArrayExpression x12)
    then show ?thesis using that
      by (auto simp: IH split: sum.splits simp del: evaluate_elements.simps)
  next
    case (Identifier x13)
    then show ?thesis by simp
  next
    case (Literal x14)
    then show ?thesis by simp
  qed
  have 2: "evaluate_statements (Suc (Suc n)) stmts env r st =
      evaluate_statements (Suc n) stmts env r st"
    if "evaluate_statements (Suc n) stmts env r st \<noteq> Inl OutOfFuel" for stmts env r st
    using that
    by (cases stmts) (auto simp: IH split: sum.splits simp del: evaluate_statements.simps
          simp: evaluate_statements.simps(2,3))
  have 3: "evaluate_elements (Suc (Suc n)) els env st = evaluate_elements (Suc n) els env st"
    if "evaluate_elements (Suc n) els env st \<noteq> Inl OutOfFuel" for els env st
    using that
    by (cases els) (auto simp: IH split: sum.splits simp del: evaluate_elements.simps
          simp: evaluate_elements.simps(2,3))
  have 4: "each_loop (Suc (Suc n)) var body env xs i r st = each_loop (Suc n) var body env xs i r st"
    if "each_loop (Suc n) var body env xs i r st \<noteq> Inl OutOfFuel" for var body env xs i r st
    using that
    by (subst (1 2) each_loop.simps(2), subst (asm) each_loop.simps(2))
       (auto simp: IH split: sum.splits prod.splits simp del: each_loop.simps)
  have 5: "as_loop (Suc (Suc n)) c body env k r st = as_loop (Suc n) c body env k r st"
    if "as_loop (Suc n) c body env k r st \<noteq> Inl OutOfFuel" for c body env k r st
    using that
    by (subst (1 2) as_loop.simps(2), subst (asm) as_loop.simps(2))
       (auto simp: IH split: sum.splits simp del: as_loop.simps)
  have 6: "call (Suc (Suc n)) fn args st = call (Suc n) fn args st"
    if "call (Suc n) fn args st \<noteq> Inl OutOfFuel" for fn args st
    using that
    by (cases fn)
       (auto simp: IH split: sum.splits prod.splits simp del: evaluate_statements.simps)
  show ?case
    using 1 2 3 4 5 6 by blast
qed

lemma evaluate_more_fuel:
  "evaluate n node env st \<noteq> Inl OutOfFuel \<Longrightarrow>
   evaluate (n + k) node env st = evaluate n node env st"
proof (induction k)
  case 0
  show ?case by simp
next
  case (Suc k)
  then show ?case
    using fuel_Suc_all [of "n + k", THEN conjunct1, rule_format, of node env st] by simp
qed

lemma execute_more_fuel:
  "execute n ast st \<noteq> Inl OutOfFuel \<Longrightarrow> execute (n + k) ast st = execute n ast st"
  unfolding execute_def by (rule evaluate_more_fuel)

lemma call_more_fuel:
  "call n fn args st \<noteq> Inl OutOfFuel \<Longrightarrow> call (n + k) fn args st = call n fn args st"
proof (induction k)
  case 0
  show ?case by simp
next
  case (Suc k)
  then show ?case
    using fuel_Suc_all [of "n + k", THEN conjunct2, THEN conjunct2, THEN conjunct2,
      THEN conjunct2, THEN conjunct2, rule_format, of fn args st] by simp
qed

section \<open>Scope chains\<close>

text \<open>
  C5, as the claim states it, fails on a chain that passes through the scope of an
  action call. In \<open>scope_example\<close> the name \<open>g\<close> is bound in the global frame 0 only.
  \<open>set\<close> on the chain of the loop scope does not update frame 0: the walk reaches the
  scope of the call (frame 1) first, whose \<open>set\<close> is the replaced one, and that binds
  \<open>g\<close> there, where it was not bound.
\<close>

theorem set_through_action_scope_counterexample:
  "bound scope_example 0 ''g'' \<and> \<not> bound scope_example 1 ''g'' \<and> \<not> bound scope_example 2 ''g''
   \<and> Environment_set [2, 1, 0] ''g'' (Number 7) scope_example \<noteq>
       Inr (variables_set 0 ''g'' (Number 7) scope_example)
   \<and> Environment_set [2, 1, 0] ''g'' (Number 7) scope_example =
       Inr \<lparr>frames = [\<lparr>variables = [(''g'', Number 0)], overrides = None\<rparr>,
                      \<lparr>variables = [(''arr'', Array [Number 7]), (''g'', Number 7)],
                         overrides = Some ([''arr''], [''g''])\<rparr>,
                      \<lparr>variables = [(''x'', Number 7)], overrides = None\<rparr>],
            out = []\<rparr>"
  by (simp add: scope_example_def bound_def action_define_def variables_set_def
        assignedVars_add_def)

text \<open>
  C5, amended. For every scope chain \<open>env\<close>, name and state:

  \<^item> \<open>get\<close> returns the binding of the nearest frame that binds the name, walking from
    local to root, and fails with \<open>UndefinedVariable name\<close> if no frame binds it;
  \<^item> \<open>set\<close> walks from local to root and stops at the first frame that is the scope of
    an action call or already binds the name. In a frame with the methods of the class
    it updates the binding, and no frame binds a name it did not bind before. At the
    scope of an action call it runs the replaced \<open>set\<close>, which binds the name in that
    scope. It fails with \<open>UndefinedVariable name\<close> exactly when the walk ends at the
    root without stopping;
  \<^item> so on a chain without the scope of an action call, \<open>set\<close> is as the claim says.
\<close>

theorem scope_chain_get_set:
  "(find (\<lambda>a. bound st a name) env = None \<longrightarrow>
      Environment_get env name st = Inl (UndefinedVariable name))
   \<and> (\<forall>a. find (\<lambda>a. bound st a name) env = Some a \<longrightarrow>
        (\<exists>v. map_of (variables (frames st ! a)) name = Some v
           \<and> Environment_get env name st = Inr v))
   \<and> Environment_set env name v st =
       (case find (\<lambda>a. overrides (frames st ! a) \<noteq> None \<or> bound st a name) env of
          None \<Rightarrow> Inl (UndefinedVariable name)
        | Some a \<Rightarrow>
            (case overrides (frames st ! a) of
               None \<Rightarrow> Inr (variables_set a name v st)
             | Some (params, assigned) \<Rightarrow> Inr (action_define a params assigned name v st)))
   \<and> (\<forall>a. a < length (frames st) \<and> bound st a name \<longrightarrow>
        (\<forall>b n. bound (variables_set a name v st) b n = bound st b n)
        \<and> map_of (variables (frames (variables_set a name v st) ! a)) name = Some v)
   \<and> ((\<forall>a \<in> set env. overrides (frames st ! a) = None) \<longrightarrow>
        Environment_set env name v st =
          (case find (\<lambda>a. bound st a name) env of
             None \<Rightarrow> Inl (UndefinedVariable name)
           | Some a \<Rightarrow> Inr (variables_set a name v st)))"
proof (intro conjI allI impI)
  assume "find (\<lambda>a. bound st a name) env = None"
  then show "Environment_get env name st = Inl (UndefinedVariable name)"
    by (simp add: Environment_get_find)
next
  fix a assume a: "find (\<lambda>a. bound st a name) env = Some a"
  then have "bound st a name"
    by (auto simp: find_Some_iff)
  then obtain w where "map_of (variables (frames st ! a)) name = Some w"
    by (auto simp: bound_def)
  with a show "\<exists>v. map_of (variables (frames st ! a)) name = Some v
      \<and> Environment_get env name st = Inr v"
    by (simp add: Environment_get_find)
next
  show "Environment_set env name v st =
       (case find (\<lambda>a. overrides (frames st ! a) \<noteq> None \<or> bound st a name) env of
          None \<Rightarrow> Inl (UndefinedVariable name)
        | Some a \<Rightarrow>
            (case overrides (frames st ! a) of
               None \<Rightarrow> Inr (variables_set a name v st)
             | Some (params, assigned) \<Rightarrow> Inr (action_define a params assigned name v st)))"
    by (rule Environment_set_find)
next
  fix a b n assume "a < length (frames st) \<and> bound st a name"
  then show "bound (variables_set a name v st) b n = bound st b n"
    by (auto simp: bound_variables_set)
next
  fix a assume "a < length (frames st) \<and> bound st a name"
  then show "map_of (variables (frames (variables_set a name v st) ! a)) name = Some v"
    by (simp add: value_variables_set)
next
  assume plain: "\<forall>a \<in> set env. overrides (frames st ! a) = None"
  then show "Environment_set env name v st =
          (case find (\<lambda>a. bound st a name) env of
             None \<Rightarrow> Inl (UndefinedVariable name)
           | Some a \<Rightarrow> Inr (variables_set a name v st))"
    by (induction env) auto
qed


theorem scope_chain_get_set_witness:
  "Environment_get [2, 1, 0] ''g'' scope_example = Inr (Number 0)
   \<and> Environment_get [2, 1, 0] ''h'' scope_example = Inl (UndefinedVariable ''h'')
   \<and> Environment_set [2, 0] ''g'' (Number 7) scope_example =
       Inr (variables_set 0 ''g'' (Number 7) scope_example)
   \<and> Environment_set [2, 0] ''h'' (Number 7) scope_example = Inl (UndefinedVariable ''h'')
   \<and> bound (variables_set 0 ''g'' (Number 7) scope_example) 0 ''g''
   \<and> \<not> bound (variables_set 0 ''g'' (Number 7) scope_example) 2 ''g''
   \<and> map_of (variables (frames (variables_set 0 ''g'' (Number 7) scope_example) ! 0)) ''g'' =
       Some (Number 7)"
  using scope_chain_get_set [where st = scope_example and name = "''g''" and env = "[2, 1, 0]"
          and v = "Number 7"]
        scope_chain_get_set [where st = scope_example and name = "''h''" and env = "[2, 1, 0]"
          and v = "Number 7"]
        scope_chain_get_set [where st = scope_example and name = "''g''" and env = "[2, 0]"
          and v = "Number 7"]
        scope_chain_get_set [where st = scope_example and name = "''h''" and env = "[2, 0]"
          and v = "Number 7"]
  by (simp add: scope_example_def bound_def)

section \<open>The implicit return\<close>

text \<open>
  A name that every object inherits is never an identifier: the scanner gives it the
  inherited value as its token type.
\<close>

lemma identifier_not_inherited:
  "readIdentifier input p = (Token IDENTIFIER (Str name) l c, rest, p') \<Longrightarrow>
   name \<notin> set object_prototype_names"
  by (auto simp: readIdentifier_def KEYWORDS_def Let_def
      split: prod.splits option.splits if_splits)

lemma get_all_local:
  "\<forall>x \<in> set names. bound st a x \<Longrightarrow>
   get_all (a # env) names st =
     Inr (map (\<lambda>x. (x, the (map_of (variables (frames st ! a)) x))) names)"
  by (induction names) (auto simp: bound_def)

lemma last_statement_value:
  "evaluate_statements n stmts env r st = Inr (v, st') \<Longrightarrow> stmts \<noteq> [] \<Longrightarrow>
   \<exists>k st1. evaluate k (last stmts) env st1 = Inr (v, st')"
proof (induction n arbitrary: stmts r st)
  case 0
  then show ?case by simp
next
  case (Suc n)
  then obtain s ss where stmts: "stmts = s # ss"
    by (cases stmts) auto
  with Suc.prems obtain w st1 where s: "evaluate n s env st = Inr (w, st1)"
    and ss: "evaluate_statements n ss env w st1 = Inr (v, st')"
    by (auto split: sum.splits)
  show ?case
  proof (cases ss)
    case Nil
    with ss have "v = w \<and> st' = st1"
      by (cases n) auto
    with s stmts Nil show ?thesis by auto
  next
    case (Cons t ts)
    then show ?thesis
      using Suc.IH [OF ss] stmts by auto
  qed
qed

text \<open>
  C1. A call of an action first enters (\<open>enter_action\<close>), then runs the statements of
  the body. If they run to the end, with \<open>lastValue\<close> the value of the last one (\<open>null\<close>
  for an empty body), the call returns, in the state the body left:

  \<^item> \<open>lastValue\<close>, if no name was recorded;
  \<^item> the value bound to the name in the scope of the call, if one name was recorded;
  \<^item> a record whose keys are the recorded names, in the order of \<open>assignedVars\<close>, each
    with the value bound to it in the scope of the call, if more than one was recorded.

  The recorded names are distinct, and reading them never fails. \<open>assignedVars\<close> is in
  first-assignment order: no evaluation removes or moves a name in it, a new name goes to
  the end (last conjunct).
\<close>

theorem implicit_return_protocol:
  assumes enter: "enter_action params env args st = (actionEnv, st0)"
    and body: "evaluate_statements n body actionEnv Null st0 = Inr (lastValue, st')"
  shows "\<exists>v. call (Suc n) (Action params body env) args st = Inr (v, st')
     \<and> distinct (assignedVars (hd actionEnv) st')
     \<and> (case assignedVars (hd actionEnv) st' of
          [] \<Rightarrow> v = lastValue
        | [name] \<Rightarrow> map_of (variables (frames st' ! hd actionEnv)) name = Some v
        | names \<Rightarrow>
            (\<exists>kvs. v = Record kvs \<and> map fst kvs = names
               \<and> (\<forall>(k, w) \<in> set kvs. map_of (variables (frames st' ! hd actionEnv)) k = Some w)))
     \<and> (body = [] \<longrightarrow> lastValue = Null)
     \<and> (body \<noteq> [] \<longrightarrow> (\<exists>k st1. evaluate k (last body) actionEnv st1 = Inr (lastValue, st')))
     \<and> (\<forall>k node env1 s w s' a. evaluate k node env1 s = Inr (w, s') \<and> a < length (frames s) \<longrightarrow>
          (\<exists>new. assignedVars a s' = assignedVars a s @ new))"
proof -
  let ?a = "hd actionEnv"
  obtain f where a: "actionEnv = length (frames st) # env"
    and f: "frames st0 = frames st @ [f]" "overrides f = Some (params, [])"
    using enter_action_frames [OF enter] by auto
  have "state_step actionEnv st0 st'"
    using body by (rule evaluate_statements_step)
  moreover have "?a < length (frames st0)" and "assignedVars ?a st0 = []"
    using a f by (simp_all add: assignedVars_def)
  ultimately have names: "distinct (assignedVars ?a st')"
    "\<forall>x \<in> set (assignedVars ?a st'). bound st' ?a x"
    using state_step_assignedVars [of actionEnv st0 st' ?a] by auto
  let ?final = "\<lambda>x. the (map_of (variables (frames st' ! ?a)) x)"
  have get: "Environment_get actionEnv x st' = Inr (?final x)"
    if "x \<in> set (assignedVars ?a st')" for x
    using names(2) that a by (auto simp: bound_def)
  have all: "get_all actionEnv (assignedVars ?a st') st' =
      Inr (map (\<lambda>x. (x, ?final x)) (assignedVars ?a st'))"
    using get_all_local [of "assignedVars ?a st'" st' ?a env] names(2) a by simp
  have bound_value: "map_of (variables (frames st' ! ?a)) x = Some (?final x)"
    if "x \<in> set (assignedVars ?a st')" for x
    using names(2) that by (auto simp: bound_def)
  define v where "v = (case assignedVars ?a st' of
      [] \<Rightarrow> lastValue | [name] \<Rightarrow> ?final name
    | names \<Rightarrow> Record (map (\<lambda>x. (x, ?final x)) names))"
  have ret: "implicit_return actionEnv lastValue st' = Inr v"
  proof (cases "assignedVars ?a st'")
    case Nil
    then show ?thesis by (simp add: implicit_return_def v_def)
  next
    case (Cons x xs)
    then show ?thesis
      using all get [of x] by (cases xs) (simp_all add: implicit_return_def v_def)
  qed
  have "call (Suc n) (Action params body env) args st = Inr (v, st')"
    using enter body ret by simp
  moreover have "case assignedVars ?a st' of
          [] \<Rightarrow> v = lastValue
        | [name] \<Rightarrow> map_of (variables (frames st' ! ?a)) name = Some v
        | names \<Rightarrow>
            (\<exists>kvs. v = Record kvs \<and> map fst kvs = names
               \<and> (\<forall>(k, w) \<in> set kvs. map_of (variables (frames st' ! ?a)) k = Some w))"
  proof (cases "assignedVars ?a st'")
    case Nil
    then show ?thesis by (simp add: v_def)
  next
    case (Cons x xs)
    show ?thesis
    proof (cases xs)
      case Nil
      with Cons show ?thesis
        using bound_value [of x] by (simp add: v_def)
    next
      case (Cons y ys)
      let ?kvs = "map (\<lambda>x. (x, ?final x)) (assignedVars ?a st')"
      have "v = Record ?kvs"
        using Cons \<open>assignedVars ?a st' = x # xs\<close> by (simp add: v_def)
      moreover have "map fst ?kvs = assignedVars ?a st'"
        by (simp add: comp_def)
      moreover have "\<forall>(k, w) \<in> set ?kvs. map_of (variables (frames st' ! ?a)) k = Some w"
        using bound_value by auto
      ultimately show ?thesis
        using Cons \<open>assignedVars ?a st' = x # xs\<close> by (auto simp del: map_map)
    qed
  qed
  moreover have "body = [] \<longrightarrow> lastValue = Null"
    using body by (cases n) auto
  moreover have "body \<noteq> [] \<longrightarrow> (\<exists>k st1. evaluate k (last body) actionEnv st1 = Inr (lastValue, st'))"
    using last_statement_value [OF body] by simp
  moreover have "\<exists>new. assignedVars a s' = assignedVars a s @ new"
    if "evaluate k node env1 s = Inr (w, s')" and "a < length (frames s)"
    for k node env1 s w s' a
    using state_step_assignedVars [OF evaluate_step [OF that(1)] that(2)] by blast
  ultimately show ?thesis
    using names(1) by blast
qed

theorem implicit_return_protocol_witness:
  "call 8 (Action [''a'', ''b''] calculate_body globalEnv) [Number 10, Number 5] initial_state =
     Inr (Record [(''sum'', Number 15), (''diff'', Number 5), (''prod'', Number 50)],
          initial_state\<lparr>frames := frames initial_state @
            [\<lparr>variables = [(''a'', Number 10), (''b'', Number 5), (''sum'', Number 15),
                           (''diff'', Number 5), (''prod'', Number 50)],
              overrides = Some ([''a'', ''b''], [''sum'', ''diff'', ''prod''])\<rparr>]\<rparr>)
   \<and> call 8 (Action [''x''] [NodeDeclaration ''result''
            (BinaryExpression ''*'' (Identifier ''x'') (Literal (LNum 2)))] globalEnv)
        [Number 5] initial_state =
     Inr (Number 10,
          initial_state\<lparr>frames := frames initial_state @
            [\<lparr>variables = [(''x'', Number 5), (''result'', Number 10)],
              overrides = Some ([''x''], [''result''])\<rparr>]\<rparr>)
   \<and> call 8 (Action [''x''] [BinaryExpression ''*'' (Identifier ''x'') (Identifier ''x'')]
            globalEnv) [Number 5] initial_state =
     Inr (Number 25,
          initial_state\<lparr>frames := frames initial_state @
            [\<lparr>variables = [(''x'', Number 5)], overrides = Some ([''x''], [])\<rparr>]\<rparr>)"
proof -
  let ?enter = "\<lambda>params args vars. initial_state\<lparr>frames := frames initial_state @
      [\<lparr>variables = vars, overrides = Some (params, [])\<rparr>]\<rparr>"
  have e1: "enter_action [''a'', ''b''] globalEnv [Number 10, Number 5] initial_state =
      ([1, 0], ?enter [''a'', ''b''] [Number 10, Number 5]
                 [(''a'', Number 10), (''b'', Number 5)])"
    by (simp add: enter_action_def new_Environment_def initial_state_def globalEnv_def
          bind_params_def install_overrides_def variables_set_def argument_def upt_rec)
  have e2: "enter_action [''x''] globalEnv [Number 5] initial_state =
      ([1, 0], ?enter [''x''] [Number 5] [(''x'', Number 5)])"
    by (simp add: enter_action_def new_Environment_def initial_state_def globalEnv_def
          bind_params_def install_overrides_def variables_set_def argument_def upt_rec)
  note defs = calculate_body_def initial_state_def builtin_names_def declare_node_def
    bound_def variables_set_def action_define_def assignedVars_add_def binary_operator_def
    js_add_def js_arith_def
  have b1: "evaluate_statements 7 calculate_body [1, 0] Null
      (?enter [''a'', ''b''] [Number 10, Number 5] [(''a'', Number 10), (''b'', Number 5)]) =
    Inr (Number 50, initial_state\<lparr>frames := frames initial_state @
            [\<lparr>variables = [(''a'', Number 10), (''b'', Number 5), (''sum'', Number 15),
                           (''diff'', Number 5), (''prod'', Number 50)],
              overrides = Some ([''a'', ''b''], [''sum'', ''diff'', ''prod''])\<rparr>]\<rparr>)"
    by (simp add: defs eval_nat_numeral)
  have b2: "evaluate_statements 7 [NodeDeclaration ''result''
            (BinaryExpression ''*'' (Identifier ''x'') (Literal (LNum 2)))] [1, 0] Null
      (?enter [''x''] [Number 5] [(''x'', Number 5)]) =
    Inr (Number 10, initial_state\<lparr>frames := frames initial_state @
            [\<lparr>variables = [(''x'', Number 5), (''result'', Number 10)],
              overrides = Some ([''x''], [''result''])\<rparr>]\<rparr>)"
    by (simp add: defs eval_nat_numeral lit_value_def)
  have b3: "evaluate_statements 7
      [BinaryExpression ''*'' (Identifier ''x'') (Identifier ''x'')] [1, 0] Null
      (?enter [''x''] [Number 5] [(''x'', Number 5)]) =
    Inr (Number 25, initial_state\<lparr>frames := frames initial_state @
            [\<lparr>variables = [(''x'', Number 5)], overrides = Some ([''x''], [])\<rparr>]\<rparr>)"
    by (simp add: defs eval_nat_numeral)
  show ?thesis
    using implicit_return_protocol [OF e1 b1] implicit_return_protocol [OF e2 b2]
      implicit_return_protocol [OF e2 b3]
    by (auto simp: assignedVars_def initial_state_def)
qed

section \<open>Assignments inside a loop inside an action\<close>

text \<open>
  C2, as the claim states it, fails. In \<open>nested_loop_program\<close> the name \<open>g\<close> is bound
  in the global scope only, never in the scope of the call of \<open>f\<close> before the loop
  runs (\<open>scope_example\<close> is the state the assignment in the loop finds). The assignment
  \<open>g = x\<close> inside the loop is recorded all the same: the call returns the record
  \<open>{g: 7, a: 1}\<close>, and the global \<open>g\<close> is still 0, with 20 units of fuel or more.
\<close>

theorem nested_loop_assignment_counterexample:
  "\<not> bound scope_example 1 ''g''
   \<and> declare_node [2, 1, 0] ''g'' (Number 7) scope_example =
       Inr \<lparr>frames = [\<lparr>variables = [(''g'', Number 0)], overrides = None\<rparr>,
                      \<lparr>variables = [(''arr'', Array [Number 7]), (''g'', Number 7)],
                         overrides = Some ([''arr''], [''g''])\<rparr>,
                      \<lparr>variables = [(''x'', Number 7)], overrides = None\<rparr>],
            out = []\<rparr>
   \<and> (\<forall>k. result_value (execute (20 + k) nested_loop_program initial_state) =
            Inr (Record [(''g'', Number 7), (''a'', Number 1)]))
   \<and> (\<forall>k. global_binding ''g'' (execute (20 + k) nested_loop_program initial_state) =
            Inr (Some (Number 0)))"
proof -
  have run: "result_value (execute 20 nested_loop_program initial_state) =
       Inr (Record [(''g'', Number 7), (''a'', Number 1)])
     \<and> global_binding ''g'' (execute 20 nested_loop_program initial_state) =
       Inr (Some (Number 0))"
    by (simp add: declare_node_def action_define_def variables_set_def bound_def
        assignedVars_add_def nested_loop_program_def execute_def globalEnv_def initial_state_def
        builtin_names_def eval_nat_numeral lit_value_def new_Environment_def maxIterations_def
        enter_action_def bind_params_def install_overrides_def argument_def implicit_return_def
        assignedVars_def result_value_def global_binding_def upt_rec)
  then have "execute 20 nested_loop_program initial_state \<noteq> Inl OutOfFuel"
    by (auto simp: result_value_def)
  then have "execute (20 + k) nested_loop_program initial_state =
      execute 20 nested_loop_program initial_state" for k
    by (rule execute_more_fuel)
  then show ?thesis
    using run
    by (simp add: scope_example_def bound_def declare_node_def action_define_def
          variables_set_def assignedVars_add_def)
qed

text \<open>
  C2, amended. While an action body runs, take an assignment to \<open>name\<close> inside nested
  loops: \<open>loops\<close> are the scopes of the enclosing iterations, nearest first, \<open>a\<close> is the
  scope of the call, \<open>rest\<close> its ancestors.

  \<^item> If one of the loop scopes binds the name (a loop variable, or a name first assigned
    in that iteration), the nearest such scope is updated and nothing is recorded.
  \<^item> Otherwise, if the name is bound in the scope of the call or in any of its ancestors
    (a global, a builtin), the replaced \<open>set\<close> of the call's scope binds it in the scope
    of the call and records it, unless it is a parameter.
  \<^item> Otherwise the name is brand-new: it is bound in the scope of the innermost
    iteration and nothing is recorded.
\<close>

theorem nested_loop_assignment:
  assumes loops: "loops \<noteq> []" "\<forall>l \<in> set loops. overrides (frames st ! l) = None"
    and action: "a < length (frames st)" "overrides (frames st ! a) = Some (params, names)"
  shows "declare_node (loops @ a # rest) name v st =
      (case find (\<lambda>l. bound st l name) loops of
         Some l \<Rightarrow> Inr (variables_set l name v st)
       | None \<Rightarrow>
           if Environment_has (a # rest) name st
           then Inr (action_define a params names name v st)
           else Inr (variables_set (hd loops) name v st))
    \<and> (\<forall>l. assignedVars a (variables_set l name v st) = names)
    \<and> assignedVars a (action_define a params names name v st) =
        (if name \<in> set params then names else assignedVars_add name names)
    \<and> bound (action_define a params names name v st) a name"
proof (intro conjI allI)
  obtain l ls where ls: "loops = l # ls"
    using loops(1) by (cases loops) auto
  have plain: "overrides (frames st ! l) = None"
    using loops(2) ls by simp
  show "declare_node (loops @ a # rest) name v st =
      (case find (\<lambda>l. bound st l name) loops of
         Some l \<Rightarrow> Inr (variables_set l name v st)
       | None \<Rightarrow>
           if Environment_has (a # rest) name st
           then Inr (action_define a params names name v st)
           else Inr (variables_set (hd loops) name v st))"
  proof (cases "find (\<lambda>l. bound st l name) loops")
    case (Some l')
    show ?thesis
    proof (cases "bound st l name")
      case True
      then show ?thesis
        using Some ls by (simp add: declare_node_def)
    next
      case False
      then have "find (\<lambda>l. bound st l name) ls = Some l'"
        using Some ls by simp
      then have "Environment_has (ls @ a # rest) name st"
        by (simp add: Environment_has_append)
      moreover have "Environment_set (loops @ a # rest) name v st =
          Inr (variables_set l' name v st)"
        using Environment_set_in_loops [OF loops(2) Some] .
      ultimately show ?thesis
        using False Some ls by (simp add: declare_node_def del: Environment_set.simps)
    qed
  next
    case None
    then have unbound: "\<forall>l \<in> set loops. \<not> bound st l name"
      by (simp add: find_None_iff)
    then have through: "Environment_set (loops @ a # rest) name v st =
        Inr (action_define a params names name v st)"
      using Environment_set_through_loops [of loops st name "a # rest" v] loops(2) action(2)
      by simp
    have has: "Environment_has (ls @ a # rest) name st = Environment_has (a # rest) name st"
      using unbound ls by (simp add: Environment_has_append find_None_iff)
    show ?thesis
      using None unbound ls plain through has
      by (simp add: declare_node_def del: Environment_set.simps Environment_has.simps)
  qed
next
  fix l show "assignedVars a (variables_set l name v st) = names"
    using action(2) by (simp add: assignedVars_def)
next
  show "assignedVars a (action_define a params names name v st) =
        (if name \<in> set params then names else assignedVars_add name names)"
    using action by (simp add: assignedVars_action_define) (simp add: assignedVars_def)
next
  show "bound (action_define a params names name v st) a name"
    using action(1) by (rule bound_action_define)
qed

theorem nested_loop_assignment_witness:
  "declare_node [2, 1, 0] ''g'' (Number 7) scope_example =
     Inr (action_define 1 [''arr''] [] ''g'' (Number 7) scope_example)
   \<and> assignedVars 1 (action_define 1 [''arr''] [] ''g'' (Number 7) scope_example) = [''g'']
   \<and> declare_node [2, 1, 0] ''arr'' (Number 7) scope_example =
     Inr (action_define 1 [''arr''] [] ''arr'' (Number 7) scope_example)
   \<and> assignedVars 1 (action_define 1 [''arr''] [] ''arr'' (Number 7) scope_example) = []
   \<and> declare_node [2, 1, 0] ''h'' (Number 7) scope_example =
     Inr (variables_set 2 ''h'' (Number 7) scope_example)
   \<and> assignedVars 1 (variables_set 2 ''h'' (Number 7) scope_example) = []
   \<and> declare_node [2, 1, 0] ''x'' (Number 8) scope_example =
     Inr (variables_set 2 ''x'' (Number 8) scope_example)"
  using nested_loop_assignment [where loops = "[2]" and st = scope_example and a = 1
          and params = "[''arr'']" and names = "[]" and rest = "[0]" and name = "''g''"
          and v = "Number 7"]
        nested_loop_assignment [where loops = "[2]" and st = scope_example and a = 1
          and params = "[''arr'']" and names = "[]" and rest = "[0]" and name = "''arr''"
          and v = "Number 7"]
        nested_loop_assignment [where loops = "[2]" and st = scope_example and a = 1
          and params = "[''arr'']" and names = "[]" and rest = "[0]" and name = "''h''"
          and v = "Number 7"]
        nested_loop_assignment [where loops = "[2]" and st = scope_example and a = 1
          and params = "[''arr'']" and names = "[]" and rest = "[0]" and name = "''x''"
          and v = "Number 8"]
  by (simp add: scope_example_def bound_def assignedVars_add_def)

section \<open>The scope of an iteration\<close>

text \<open>
  C4, as the claim states it, fails when the loop variable has the name of something
  the enclosing scope binds. After \<open>x = 0  each (x in [1, 2]) x = 5 end\<close>, run with 20
  units of fuel or more, the global scope still binds \<open>x\<close>, to 0: the loop variable is
  bound in the enclosing scope after the loop, and the assignment \<open>x = 5\<close>, to a name
  already bound in the enclosing chain, has not updated the enclosing scope (it updates
  the scope of the iteration).
\<close>

theorem each_loop_shadowing_counterexample:
  "\<forall>k. global_binding ''x'' (execute (20 + k) shadow_program initial_state) =
     Inr (Some (Number 0))"
proof
  fix k
  have run: "global_binding ''x'' (execute 20 shadow_program initial_state) =
      Inr (Some (Number 0))"
    by (simp add: shadow_program_def execute_def globalEnv_def initial_state_def
      builtin_names_def eval_nat_numeral lit_value_def new_Environment_def maxIterations_def
      declare_node_def bound_def variables_set_def global_binding_def)
  then have "execute 20 shadow_program initial_state \<noteq> Inl OutOfFuel"
    by (auto simp: global_binding_def)
  then have "execute (20 + k) shadow_program initial_state =
      execute 20 shadow_program initial_state"
    by (rule execute_more_fuel)
  then show "global_binding ''x'' (execute (20 + k) shadow_program initial_state) =
     Inr (Some (Number 0))"
    using run by simp
qed

text \<open>
  C4, amended. For every each-loop outside an action body (every scope on the chain
  has the methods of the class):

  \<^item> each iteration runs the body in one fresh scope, a child of the loop's scope, in
    which the loop variable is bound and nothing else (first conjunct);
  \<^item> an assignment in the body updates the nearest scope that binds the name, the
    scope of the iteration first: so a name the iteration's scope does not bind (any name
    but the loop variable, at the start) and the enclosing chain binds is updated in the
    enclosing scope; a name bound nowhere is bound in the scope of the iteration (second
    conjunct);
  \<^item> the loop binds no name in a scope that existed before it, and unbinds none: the
    loop variable is not bound in the enclosing scope after the loop unless it was before
    (third conjunct);
  \<^item> \<open>each (item in [1, 2, 3]) sum = sum + item end\<close> with \<open>sum\<close> bound to 0 leaves \<open>sum\<close>
    equal to 6 in the global scope, and \<open>item\<close> unbound there (with 20 units of fuel or
    more).
\<close>

theorem each_loop_scoping:
  "(i < length xs \<and> i < maxIterations \<longrightarrow>
      each_loop (Suc n) variable body env xs i result st =
        (case evaluate n body (length (frames st) # env)
                (st\<lparr>frames := frames st @ [\<lparr>variables = [(variable, xs ! i)], overrides = None\<rparr>]\<rparr>) of
           Inl e \<Rightarrow> Inl e
         | Inr (r, st') \<Rightarrow> each_loop n variable body env xs (i + 1) r st'))
   \<and> ((\<forall>a \<in> set (l # env). overrides (frames st ! a) = None) \<longrightarrow>
        declare_node (l # env) name v st =
          Inr (variables_set
                 (case find (\<lambda>a. bound st a name) (l # env) of Some a \<Rightarrow> a | None \<Rightarrow> l)
                 name v st))
   \<and> (\<forall>w st'. each_loop n variable body env xs i result st = Inr (w, st') \<longrightarrow>
        (\<forall>e < length (frames st). overrides (frames st ! e) = None \<longrightarrow>
           (\<forall>name. bound st' e name = bound st e name)))
   \<and> (\<forall>k. global_binding ''sum'' (execute (20 + k) each_sum_program initial_state) =
          Inr (Some (Number 6)))
   \<and> (\<forall>k. global_binding ''item'' (execute (20 + k) each_sum_program initial_state) = Inr None)"
proof (intro conjI impI allI)
  assume "i < length xs \<and> i < maxIterations"
  then show "each_loop (Suc n) variable body env xs i result st =
        (case evaluate n body (length (frames st) # env)
                (st\<lparr>frames := frames st @ [\<lparr>variables = [(variable, xs ! i)], overrides = None\<rparr>]\<rparr>) of
           Inl e \<Rightarrow> Inl e
         | Inr (r, st') \<Rightarrow> each_loop n variable body env xs (i + 1) r st')"
    by (simp add: new_Environment_def variables_set_def)
next
  assume "\<forall>a \<in> set (l # env). overrides (frames st ! a) = None"
  then show "declare_node (l # env) name v st =
          Inr (variables_set
                 (case find (\<lambda>a. bound st a name) (l # env) of Some a \<Rightarrow> a | None \<Rightarrow> l)
                 name v st)"
    by (rule declare_node_plain)
next
  fix w st' e name
  assume "each_loop n variable body env xs i result st = Inr (w, st')"
    and "e < length (frames st)" and "overrides (frames st ! e) = None"
  then show "bound st' e name = bound st e name"
    using state_step_plain_bound(1) [OF each_loop_step] by blast
next
  note defs = each_sum_program_def execute_def globalEnv_def initial_state_def
    builtin_names_def eval_nat_numeral lit_value_def new_Environment_def maxIterations_def
    declare_node_def bound_def variables_set_def binary_operator_def js_add_def
    global_binding_def
  have sum: "global_binding ''sum'' (execute 20 each_sum_program initial_state) =
      Inr (Some (Number 6))"
    by (simp add: defs)
  have item: "global_binding ''item'' (execute 20 each_sum_program initial_state) = Inr None"
    by (simp add: defs)
  from sum have "execute 20 each_sum_program initial_state \<noteq> Inl OutOfFuel"
    by (auto simp: global_binding_def)
  then have more: "execute (20 + k) each_sum_program initial_state =
      execute 20 each_sum_program initial_state" for k
    by (rule execute_more_fuel)
  fix k
  show "global_binding ''sum'' (execute (20 + k) each_sum_program initial_state) =
      Inr (Some (Number 6))"
    using sum more by simp
  show "global_binding ''item'' (execute (20 + k) each_sum_program initial_state) = Inr None"
    using item more by simp
qed

theorem each_loop_scoping_witness:
  "each_loop 8 ''item'' sum_body [0] [Number 1, Number 2] 0 Null sum_state =
     Inr (Number 3,
          \<lparr>frames = [\<lparr>variables = [(''sum'', Number 3)], overrides = None\<rparr>,
                     \<lparr>variables = [(''item'', Number 1)], overrides = None\<rparr>,
                     \<lparr>variables = [(''item'', Number 2)], overrides = None\<rparr>],
            out = []\<rparr>)
   \<and> declare_node [1, 0] ''sum'' (Number 1)
        (sum_state\<lparr>frames := frames sum_state @
           [\<lparr>variables = [(''item'', Number 1)], overrides = None\<rparr>]\<rparr>) =
       Inr (variables_set 0 ''sum'' (Number 1)
        (sum_state\<lparr>frames := frames sum_state @
           [\<lparr>variables = [(''item'', Number 1)], overrides = None\<rparr>]\<rparr>))
   \<and> \<not> bound \<lparr>frames = [\<lparr>variables = [(''sum'', Number 3)], overrides = None\<rparr>,
                     \<lparr>variables = [(''item'', Number 1)], overrides = None\<rparr>,
                     \<lparr>variables = [(''item'', Number 2)], overrides = None\<rparr>],
            out = []\<rparr> 0 ''item''"
proof -
  let ?final = "\<lparr>frames = [\<lparr>variables = [(''sum'', Number 3)], overrides = None\<rparr>,
                     \<lparr>variables = [(''item'', Number 1)], overrides = None\<rparr>,
                     \<lparr>variables = [(''item'', Number 2)], overrides = None\<rparr>],
            out = []\<rparr>"
  have run: "each_loop 8 ''item'' sum_body [0] [Number 1, Number 2] 0 Null sum_state =
      Inr (Number 3, ?final)"
    by (simp add: sum_state_def sum_body_def eval_nat_numeral new_Environment_def
          maxIterations_def declare_node_def bound_def variables_set_def binary_operator_def
          js_add_def)
  have "\<not> bound sum_state 0 ''item''"
    by (simp add: sum_state_def bound_def)
  then have "\<not> bound ?final 0 ''item''"
    using run each_loop_scoping [where n = 8 and variable = "''item''" and body = sum_body
        and env = "[0]" and xs = "[Number 1, Number 2]" and i = 0 and result = Null
        and st = sum_state]
    by (simp add: sum_state_def)
  moreover have "declare_node [1, 0] ''sum'' (Number 1)
        (sum_state\<lparr>frames := frames sum_state @
           [\<lparr>variables = [(''item'', Number 1)], overrides = None\<rparr>]\<rparr>) =
       Inr (variables_set 0 ''sum'' (Number 1)
        (sum_state\<lparr>frames := frames sum_state @
           [\<lparr>variables = [(''item'', Number 1)], overrides = None\<rparr>]\<rparr>))"
    using each_loop_scoping [where l = 1 and env = "[0]" and name = "''sum''"
        and v = "Number 1" and st = "sum_state\<lparr>frames := frames sum_state @
           [\<lparr>variables = [(''item'', Number 1)], overrides = None\<rparr>]\<rparr>"]
    by (simp add: sum_state_def bound_def)
  ultimately show ?thesis
    using run by simp
qed

section \<open>The iteration ceiling\<close>

lemma print_iteration:
  assumes "prints st"
  shows "evaluate (Suc (Suc (Suc (Suc (Suc k))))) print_body [length (frames st), 0]
           (st\<lparr>frames := frames st @ [\<lparr>variables = [(''item'', x)], overrides = None\<rparr>]\<rparr>) =
         Inr (x, st\<lparr>frames := frames st @ [\<lparr>variables = [(''item'', x)], overrides = None\<rparr>],
                    out := out st @ [[x]]\<rparr>)"
  using assms
  by (simp add: prints_def print_body_def nth_append call_builtin_def)

lemma print_each_loop:
  assumes "prints st" and "length xs \<le> maxIterations" and "i \<le> length xs"
    and "length xs - i + 6 \<le> n"
  shows "\<exists>w st'. each_loop n ''item'' print_body [0] xs i r st = Inr (w, st')
           \<and> out st' = out st @ map (\<lambda>x. [x]) (drop i xs)"
  using assms
proof (induction "length xs - i" arbitrary: i r st n)
  case 0
  then have "i = length xs" by simp
  moreover obtain m where "n = Suc m"
    using 0 by (cases n) auto
  ultimately show ?case by simp
next
  case (Suc d)
  then have i: "i < length xs" "i < maxIterations" by auto
  define k where "k = n - 6"
  then have n: "n = Suc (Suc (Suc (Suc (Suc (Suc k)))))"
    using Suc.prems(4) by simp
  let ?m = "Suc (Suc (Suc (Suc (Suc k))))"
  let ?st1 = "st\<lparr>frames := frames st @ [\<lparr>variables = [(''item'', xs ! i)], overrides = None\<rparr>],
                    out := out st @ [[xs ! i]]\<rparr>"
  have body: "evaluate ?m print_body [length (frames st), 0]
           (st\<lparr>frames := frames st @ [\<lparr>variables = [(''item'', xs ! i)], overrides = None\<rparr>]\<rparr>) =
         Inr (xs ! i, ?st1)"
    using Suc.prems(1) by (rule print_iteration)
  have step: "each_loop n ''item'' print_body [0] xs i r st =
      each_loop ?m ''item'' print_body [0] xs (i + 1) (xs ! i) ?st1"
    unfolding n
    by (subst each_loop.simps(2))
       (simp add: i body new_Environment_def variables_set_def del: evaluator_simps)
  have "prints ?st1"
    using Suc.prems(1) by (simp add: prints_def nth_append)
  moreover have "d = length xs - (i + 1)" and "i + 1 \<le> length xs"
    and "length xs - (i + 1) + 6 \<le> ?m"
    using Suc.hyps(2) Suc.prems(4) i n by auto
  ultimately obtain w st' where
    "each_loop ?m ''item'' print_body [0] xs (i + 1) (xs ! i) ?st1 = Inr (w, st')"
    and "out st' = out ?st1 @ map (\<lambda>x. [x]) (drop (i + 1) xs)"
    using Suc.hyps(1) [of "i + 1" ?st1 ?m "xs ! i"] Suc.prems(2)
    by blast
  then show ?case
    using step i by (simp add: Cons_nth_drop_Suc [symmetric])
qed

lemma each_loop_take:
  "each_loop n variable body env xs i result st =
   each_loop n variable body env (take maxIterations xs) i result st"
proof (induction n arbitrary: i result st)
  case 0
  show ?case by simp
next
  case (Suc n)
  show ?case
  proof (cases "i < length xs \<and> i < maxIterations")
    case True
    then show ?thesis
      using Suc.IH by (simp split: prod.splits sum.splits)
  next
    case False
    then show ?thesis by auto
  qed
qed

lemma prints_array_state: "prints (array_state xs)" and out_array_state: "out (array_state xs) = []"
  and arr_array_state: "Environment_get globalEnv ''arr'' (array_state xs) = Inr (Array xs)"
  by (simp_all add: prints_def array_state_def initial_state_def builtin_names_def
        nth_variables_set update_conv' globalEnv_def)

lemma print_loop_output:
  assumes "10007 \<le> n"
  shows "\<exists>w st'. evaluate n print_loop globalEnv (array_state xs) = Inr (w, st')
           \<and> out st' = map (\<lambda>x. [x]) (take 10000 xs)"
proof -
  obtain m where n: "n = Suc m" and m: "10006 \<le> m"
    using assms by (cases n) auto
  then obtain m' where m': "m = Suc m'"
    by (cases m) auto
  let ?ys = "take maxIterations xs"
  have "length ?ys - 0 + 6 \<le> m"
    using m by (simp add: maxIterations_def)
  then obtain w st' where
    "each_loop m ''item'' print_body [0] ?ys 0 Null (array_state xs) = Inr (w, st')"
    and "out st' = out (array_state xs) @ map (\<lambda>x. [x]) (drop 0 ?ys)"
    using print_each_loop [where st = "array_state xs" and xs = ?ys and i = 0 and n = m
        and r = Null] prints_array_state
    by auto
  then have "each_loop m ''item'' print_body globalEnv xs 0 Null (array_state xs) = Inr (w, st')"
    and "out st' = map (\<lambda>x. [x]) (take 10000 xs)"
    using each_loop_take [of m "''item''" print_body "[0]" xs 0 Null "array_state xs"]
    by (simp_all add: out_array_state maxIterations_def globalEnv_def)
  moreover have "evaluate m (Identifier ''arr'') globalEnv (array_state xs) =
      Inr (Array xs, array_state xs)"
    unfolding m' by (simp add: arr_array_state)
  then have "evaluate n print_loop globalEnv (array_state xs) =
      each_loop m ''item'' print_body globalEnv xs 0 Null (array_state xs)"
    unfolding n print_loop_def
    by (subst evaluate.simps) (simp del: evaluator_simps)
  ultimately show ?thesis by simp
qed

lemma as_loop_ceiling:
  assumes "evaluate n condition env st = Inr (c, st1)" and "isTruthy c"
    and "maxIterations \<le> iterations"
  shows "as_loop (Suc n) condition body env iterations result st = Inl MaxIterationsExceeded"
  using assms by simp

lemma as_loop_forever:
  assumes "k \<le> maxIterations" and "maxIterations - k + 3 \<le> f"
  shows "as_loop f (Literal (LBool True)) (BlockStatement []) env k r st =
           Inl MaxIterationsExceeded"
  using assms
proof (induction "maxIterations - k" arbitrary: k f r)
  case 0
  define j where "j = f - 2"
  then have "f = Suc (Suc j)"
    using 0 by simp
  then show ?case
    using 0 by (simp add: lit_value_def)
next
  case (Suc d)
  define j where "j = f - 3"
  then have f: "f = Suc (Suc (Suc j))"
    using Suc.prems(2) by simp
  have k: "\<not> maxIterations \<le> k"
    using Suc.hyps(2) by arith
  have "as_loop f (Literal (LBool True)) (BlockStatement []) env k r st =
      as_loop (Suc (Suc j)) (Literal (LBool True)) (BlockStatement []) env (k + 1) Null st"
    unfolding f using k
    by (subst as_loop.simps(2)) (simp add: lit_value_def del: as_loop.simps)
  moreover have "d = maxIterations - (k + 1)" and "k + 1 \<le> maxIterations"
    and "maxIterations - (k + 1) + 3 \<le> Suc (Suc j)"
    using Suc.hyps(2) Suc.prems(2) f by auto
  ultimately show ?case
    using Suc.hyps(1) [of "k + 1" "Suc (Suc j)" Null] by simp
qed

lemma forever_loop_raises:
  assumes "10004 \<le> n"
  shows "evaluate n forever_loop env st = Inl MaxIterationsExceeded"
proof -
  obtain m where n: "n = Suc m" and "10003 \<le> m"
    using assms by (cases n) auto
  then have "maxIterations - 0 + 3 \<le> m"
    by (simp add: maxIterations_def)
  then show ?thesis
    using as_loop_forever [of 0 m env Null st] by (simp add: n forever_loop_def)
qed

lemma each_requires_array:
  assumes "evaluate n iterable env st = Inr (w, st1)" and "\<forall>ys. w \<noteq> Array ys"
  shows "evaluate (Suc n) (EachStatement variable iterable body) env st = Inl EachRequiresArray"
  using assms by (cases w) simp_all

text \<open>
  C3. The ceiling is 10000.

  \<^item> An each-loop over an array runs as the loop over the first 10000 elements does:
    same result, same state, no error for the length (second conjunct). With the body
    \<open>print(item)\<close> the output is the first 10000 elements, one line each, whatever the
    length of the array (third conjunct; 10007 units of fuel are enough for any array).
  \<^item> An as-loop whose condition is true once more after 10000 passes raises
    \<open>MaxIterationsExceeded\<close> (fourth conjunct), and \<open>as (true) end\<close> does get there
    (fifth conjunct).
  \<^item> An each-loop whose iterable is not an array raises \<open>EachRequiresArray\<close> (last
    conjunct).
\<close>

theorem loop_ceiling:
  "maxIterations = 10000
   \<and> each_loop n variable body env xs i result st =
       each_loop n variable body env (take maxIterations xs) i result st
   \<and> (10007 \<le> n \<longrightarrow>
        (\<exists>w st'. evaluate n print_loop globalEnv (array_state xs) = Inr (w, st')
           \<and> out st' = map (\<lambda>x. [x]) (take 10000 xs)))
   \<and> (evaluate n condition env st = Inr (c, st1) \<and> isTruthy c \<and> maxIterations \<le> iterations \<longrightarrow>
        as_loop (Suc n) condition body env iterations result st = Inl MaxIterationsExceeded)
   \<and> (10004 \<le> n \<longrightarrow> evaluate n forever_loop env st = Inl MaxIterationsExceeded)
   \<and> (evaluate n iterable env st = Inr (w, st1) \<and> (\<forall>ys. w \<noteq> Array ys) \<longrightarrow>
        evaluate (Suc n) (EachStatement variable iterable body) env st = Inl EachRequiresArray)"
proof (intro conjI impI)
  show "maxIterations = 10000"
    by (simp add: maxIterations_def)
  show "each_loop n variable body env xs i result st =
       each_loop n variable body env (take maxIterations xs) i result st"
    by (rule each_loop_take)
  show "\<exists>w st'. evaluate n print_loop globalEnv (array_state xs) = Inr (w, st')
           \<and> out st' = map (\<lambda>x. [x]) (take 10000 xs)" if "10007 \<le> n"
    using that by (rule print_loop_output)
  show "as_loop (Suc n) condition body env iterations result st = Inl MaxIterationsExceeded"
    if "evaluate n condition env st = Inr (c, st1) \<and> isTruthy c \<and> maxIterations \<le> iterations"
    using that as_loop_ceiling by blast
  show "evaluate n forever_loop env st = Inl MaxIterationsExceeded" if "10004 \<le> n"
    using that by (rule forever_loop_raises)
  show "evaluate (Suc n) (EachStatement variable iterable body) env st = Inl EachRequiresArray"
    if "evaluate n iterable env st = Inr (w, st1) \<and> (\<forall>ys. w \<noteq> Array ys)"
    using that each_requires_array by blast
qed


theorem loop_ceiling_witness:
  "(\<exists>w st'. evaluate 10007 print_loop globalEnv (array_state (replicate 10001 (Number 1))) =
        Inr (w, st') \<and> out st' = replicate 10000 [Number 1])
   \<and> evaluate 10004 forever_loop globalEnv initial_state = Inl MaxIterationsExceeded
   \<and> as_loop (Suc 1) (Literal (LBool True)) (BlockStatement []) globalEnv 10000 Null
        initial_state = Inl MaxIterationsExceeded
   \<and> evaluate (Suc 1) (EachStatement ''n'' (Literal (LNum 5)) (BlockStatement [])) globalEnv
        initial_state = Inl EachRequiresArray"
proof (intro conjI)
  have "(10007::nat) \<le> 10007"
    by simp
  then have "\<exists>w st'. evaluate 10007 print_loop globalEnv
        (array_state (replicate 10001 (Number 1))) = Inr (w, st')
      \<and> out st' = map (\<lambda>x. [x]) (take 10000 (replicate 10001 (Number 1)))"
    using loop_ceiling [where n = 10007 and xs = "replicate 10001 (Number 1)"] by blast
  moreover have "map (\<lambda>x. [x]) (take 10000 (replicate 10001 (Number 1))) =
      replicate 10000 [Number 1]"
    by (simp only: take_replicate map_replicate) simp
  ultimately show "\<exists>w st'. evaluate 10007 print_loop globalEnv
        (array_state (replicate 10001 (Number 1))) = Inr (w, st')
      \<and> out st' = replicate 10000 [Number 1]"
    by (simp only:)
next
  have "(10004::nat) \<le> 10004"
    by simp
  then show "evaluate 10004 forever_loop globalEnv initial_state = Inl MaxIterationsExceeded"
    using loop_ceiling [where n = 10004 and env = globalEnv and st = initial_state] by blast
next
  have "evaluate 1 (Literal (LBool True)) globalEnv initial_state =
      Inr (Boolean True, initial_state)"
    by (simp add: lit_value_def)
  moreover have "isTruthy (Boolean True)" and "maxIterations \<le> 10000"
    by (simp_all add: maxIterations_def)
  ultimately show "as_loop (Suc 1) (Literal (LBool True)) (BlockStatement []) globalEnv 10000
      Null initial_state = Inl MaxIterationsExceeded"
    using loop_ceiling [where n = 1 and condition = "Literal (LBool True)" and env = globalEnv
        and st = initial_state and c = "Boolean True" and ?st1.0 = initial_state
        and iterations = 10000 and body = "BlockStatement []" and result = Null]
    by blast
next
  have "evaluate 1 (Literal (LNum 5)) globalEnv initial_state = Inr (Number 5, initial_state)"
    by (simp add: lit_value_def)
  moreover have "\<forall>ys. Number 5 \<noteq> Array ys"
    by simp
  ultimately show "evaluate (Suc 1) (EachStatement ''n'' (Literal (LNum 5)) (BlockStatement []))
      globalEnv initial_state = Inl EachRequiresArray"
    using loop_ceiling [where n = 1 and env = globalEnv and st = initial_state
        and iterable = "Literal (LNum 5)" and w = "Number 5" and ?st1.0 = initial_state
        and variable = "''n''" and body = "BlockStatement []"]
    by blast
qed

section \<open>The logical operators\<close>

text \<open>
  C6. A binary expression with the operator \<open>&&\<close> or \<open>||\<close> evaluates the left operand,
  then the right operand in the state the left one left, whatever the left value is; an
  error of either operand is the error of the expression. The value is the Boolean that
  combines the truthiness of the two values, and the state is the one the right operand
  left. Truthiness: \<open>null\<close> and \<open>undefined\<close> are false, a Boolean is itself, a Number is
  false only when zero, a String only when empty, and arrays, records and callables are
  true.
\<close>

theorem logical_operators_evaluate_both:
  "(operator = ''&&'' \<or> operator = ''||'' \<longrightarrow>
      evaluate (Suc n) (BinaryExpression operator left right) env st =
        (case evaluate n left env st of
           Inl e \<Rightarrow> Inl e
         | Inr (l, st1) \<Rightarrow>
             (case evaluate n right env st1 of
                Inl e \<Rightarrow> Inl e
              | Inr (r, st2) \<Rightarrow>
                  Inr (Boolean (if operator = ''&&'' then isTruthy l \<and> isTruthy r
                                else isTruthy l \<or> isTruthy r), st2))))
   \<and> \<not> isTruthy Null \<and> \<not> isTruthy Undefined
   \<and> isTruthy (Boolean b) = b
   \<and> isTruthy (Number x) = (x \<noteq> 0)
   \<and> isTruthy (Str s) = (s \<noteq> [])
   \<and> isTruthy (Array xs) \<and> isTruthy (Record kvs) \<and> isTruthy (Action params body cenv)
   \<and> isTruthy (Builtin name)"
proof (intro conjI impI)
  assume "operator = ''&&'' \<or> operator = ''||''"
  then show "evaluate (Suc n) (BinaryExpression operator left right) env st =
        (case evaluate n left env st of
           Inl e \<Rightarrow> Inl e
         | Inr (l, st1) \<Rightarrow>
             (case evaluate n right env st1 of
                Inl e \<Rightarrow> Inl e
              | Inr (r, st2) \<Rightarrow>
                  Inr (Boolean (if operator = ''&&'' then isTruthy l \<and> isTruthy r
                                else isTruthy l \<or> isTruthy r), st2)))"
    by (auto simp: binary_operator_def split: sum.splits)
qed simp_all

theorem logical_operators_evaluate_both_witness:
  "evaluate (Suc 5) (BinaryExpression ''&&'' (Literal (LBool False))
       (CallExpression (Identifier ''print'') [Literal (LStr ''x'')])) globalEnv initial_state =
     Inr (Boolean False, initial_state\<lparr>out := [[Str ''x'']]\<rparr>)
   \<and> evaluate (Suc 5) (BinaryExpression ''||'' (Literal (LBool True))
       (CallExpression (Identifier ''print'') [Literal (LStr ''y'')])) globalEnv initial_state =
     Inr (Boolean True, initial_state\<lparr>out := [[Str ''y'']]\<rparr>)
   \<and> evaluate (Suc 5) (BinaryExpression ''&&'' (Literal (LBool False)) (Identifier ''nowhere''))
       globalEnv initial_state = Inl (UndefinedVariable ''nowhere'')"
proof -
  note defs = initial_state_def globalEnv_def builtin_names_def lit_value_def call_builtin_def
    eval_nat_numeral
  have l: "evaluate 5 (Literal (LBool b)) globalEnv initial_state =
      Inr (Boolean b, initial_state)" for b
    by (simp add: eval_nat_numeral lit_value_def)
  have r: "evaluate 5 (CallExpression (Identifier ''print'') [Literal (LStr s)]) globalEnv
      initial_state = Inr (Str s, initial_state\<lparr>out := [[Str s]]\<rparr>)" for s
    by (simp add: defs)
  have u: "evaluate 5 (Identifier ''nowhere'') globalEnv initial_state =
      Inl (UndefinedVariable ''nowhere'')"
    by (simp add: defs)
  show ?thesis
    using logical_operators_evaluate_both [where operator = "''&&''" and n = 5
        and left = "Literal (LBool False)" and env = globalEnv and st = initial_state
        and right = "CallExpression (Identifier ''print'') [Literal (LStr ''x'')]"]
      logical_operators_evaluate_both [where operator = "''||''" and n = 5
        and left = "Literal (LBool True)" and env = globalEnv and st = initial_state
        and right = "CallExpression (Identifier ''print'') [Literal (LStr ''y'')]"]
      logical_operators_evaluate_both [where operator = "''&&''" and n = 5
        and left = "Literal (LBool False)" and env = globalEnv and st = initial_state
        and right = "Identifier ''nowhere''"]
      l r u
    by (simp del: evaluator_simps)
qed


section \<open>The operator + on strings\<close>

text \<open>
  C10. For all strings \<open>s\<close> and \<open>t\<close>, \<open>+\<close> applied to them is their concatenation, and
  so is the value of a binary expression with the operator \<open>+\<close> whose operands evaluate to
  them.
\<close>

theorem string_concatenation:
  "binary_operator ''+'' (Str s) (Str t) = Inr (Str (s @ t))
   \<and> (evaluate n left env st = Inr (Str s, st1) \<and> evaluate n right env st1 = Inr (Str t, st2) \<longrightarrow>
        evaluate (Suc n) (BinaryExpression ''+'' left right) env st = Inr (Str (s @ t), st2))"
  by (simp add: binary_operator_def js_add_def)

theorem string_concatenation_witness:
  "evaluate (Suc 1) (BinaryExpression ''+'' (Literal (LStr ''ab'')) (Literal (LStr ''cd'')))
     globalEnv initial_state = Inr (Str ''abcd'', initial_state)"
proof -
  have "evaluate 1 (Literal (LStr s)) globalEnv initial_state = Inr (Str s, initial_state)" for s
    by (simp add: lit_value_def)
  then show ?thesis
    using string_concatenation [where n = 1 and left = "Literal (LStr ''ab'')"
        and right = "Literal (LStr ''cd'')" and env = globalEnv and st = initial_state
        and s = "''ab''" and t = "''cd''" and ?st1.0 = initial_state and ?st2.0 = initial_state]
    by (simp del: evaluator_simps)
qed

section \<open>Calls with too few or too many arguments\<close>

lemma argument_normalised:
  "i < length params \<Longrightarrow> argument (map (argument args) [0..<length params]) i = argument args i"
  by (simp add: argument_def)

lemma bind_params_normalised:
  "bind_params a params (map (argument args) [0..<length params]) st = bind_params a params args st"
  unfolding bind_params_def
  by (rule fold_cong) (auto simp: argument_normalised)

lemma enter_action_normalised:
  "enter_action params env (map (argument args) [0..<length params]) st =
   enter_action params env args st"
  by (simp add: enter_action_def bind_params_normalised split: prod.splits)

lemma call_normalised:
  "call n (Action params body env) (map (argument args) [0..<length params]) st =
   call n (Action params body env) args st"
  by (cases n) (simp_all add: enter_action_normalised)

lemma bind_upto:
  assumes "a < length (frames st)" and "n \<le> length params"
  shows "length (frames (fold (\<lambda>i. variables_set a (params ! i) (argument args i)) [0..<n] st)) =
           length (frames st)
    \<and> (\<forall>name. bound (fold (\<lambda>i. variables_set a (params ! i) (argument args i)) [0..<n] st) a name =
           (bound st a name \<or> name \<in> set (take n params)))
    \<and> (\<forall>i < n. (\<forall>j < n. i < j \<longrightarrow> params ! j \<noteq> params ! i) \<longrightarrow>
          map_of (variables (frames
            (fold (\<lambda>i. variables_set a (params ! i) (argument args i)) [0..<n] st) ! a))
            (params ! i) = Some (argument args i))"
  using assms(2)
proof (induction n)
  case 0
  show ?case by simp
next
  case (Suc n)
  let ?f = "\<lambda>i. variables_set a (params ! i) (argument args i)"
  let ?st = "fold ?f [0..<n] st"
  have IH: "length (frames ?st) = length (frames st)"
    "\<And>name. bound ?st a name = (bound st a name \<or> name \<in> set (take n params))"
    "\<And>i. i < n \<Longrightarrow> (\<forall>j < n. i < j \<longrightarrow> params ! j \<noteq> params ! i) \<Longrightarrow>
          map_of (variables (frames ?st ! a)) (params ! i) = Some (argument args i)"
    using Suc by auto
  have step: "fold ?f [0..<Suc n] st = variables_set a (params ! n) (argument args n) ?st"
    by simp
  have a: "a < length (frames ?st)"
    using IH(1) assms(1) by simp
  have "take (Suc n) params = take n params @ [params ! n]"
    using Suc.prems by (simp add: take_Suc_conv_app_nth)
  then have "\<forall>name. bound (fold ?f [0..<Suc n] st) a name =
      (bound st a name \<or> name \<in> set (take (Suc n) params))"
    using a IH(2) by (auto simp: step bound_variables_set)
  moreover have "map_of (variables (frames (fold ?f [0..<Suc n] st) ! a)) (params ! i) =
      Some (argument args i)"
    if "i < Suc n" and "\<forall>j < Suc n. i < j \<longrightarrow> params ! j \<noteq> params ! i" for i
  proof (cases "i = n")
    case True
    then show ?thesis
      using a by (simp add: step value_variables_set)
  next
    case False
    then have "i < n" and "params ! n \<noteq> params ! i"
      and "\<forall>j < n. i < j \<longrightarrow> params ! j \<noteq> params ! i"
      using that by auto
    then show ?thesis
      using IH(3) [of i] by (simp add: step value_variables_set)
  qed
  ultimately show ?case
    using IH(1) by (simp add: step)
qed

lemma enter_action_binds:
  assumes "enter_action params env args st = (actionEnv, st0)"
  shows "\<forall>name. bound st0 (length (frames st)) name = (name \<in> set params)"
    and "\<forall>i < length params. (\<forall>j < length params. i < j \<longrightarrow> params ! j \<noteq> params ! i) \<longrightarrow>
           map_of (variables (frames st0 ! length (frames st))) (params ! i) =
             Some (argument args i)"
proof -
  let ?a = "length (frames st)"
  let ?st1 = "st\<lparr>frames := frames st @ [\<lparr>variables = [], overrides = None\<rparr>]\<rparr>"
  have st0: "st0 = install_overrides ?a params (bind_params ?a params args ?st1)"
    using assms by (auto simp: enter_action_def new_Environment_def)
  have a: "?a < length (frames ?st1)" and unbound: "\<And>name. \<not> bound ?st1 ?a name"
    by (simp_all add: bound_def)
  note b = bind_upto [OF a, of "length params" params args, unfolded bind_params_def [symmetric]]
  have frame: "variables (frames st0 ! ?a) = variables (frames (bind_params ?a params args ?st1) ! ?a)"
    using b by (simp add: st0 install_overrides_def)
  show "\<forall>name. bound st0 ?a name = (name \<in> set params)"
    using b unbound frame by (simp add: bound_def)
  show "\<forall>i < length params. (\<forall>j < length params. i < j \<longrightarrow> params ! j \<noteq> params ! i) \<longrightarrow>
           map_of (variables (frames st0 ! ?a)) (params ! i) = Some (argument args i)"
    using b frame by simp
qed

text \<open>
  C9. A call of an action with any number of arguments is the call with the argument list
  cut or filled with \<open>undefined\<close> to the number of parameters: \<open>args[i]\<close> is \<open>undefined\<close>
  past the end, no arity is checked, arguments past the last parameter are never read.
  On entry the fresh scope of the call binds exactly the parameters, each to its argument
  (the last of two parameters of one name wins), a missing one to \<open>undefined\<close>; the body
  then runs as in any call.
\<close>

theorem missing_arguments:
  "call n (Action params body env) args st =
     call n (Action params body env) (map (argument args) [0..<length params]) st
   \<and> (\<forall>i. length args \<le> i \<longrightarrow> argument args i = Undefined)
   \<and> (\<forall>i < length args. argument args i = args ! i)
   \<and> (enter_action params env args st = (actionEnv, st0) \<longrightarrow>
        actionEnv = length (frames st) # env
        \<and> (\<forall>name. bound st0 (length (frames st)) name = (name \<in> set params))
        \<and> (\<forall>i < length params. (\<forall>j < length params. i < j \<longrightarrow> params ! j \<noteq> params ! i) \<longrightarrow>
              map_of (variables (frames st0 ! length (frames st))) (params ! i) =
                Some (argument args i)))"
proof (intro conjI impI)
  show "call n (Action params body env) args st =
     call n (Action params body env) (map (argument args) [0..<length params]) st"
    by (rule call_normalised [symmetric])
  show "\<forall>i. length args \<le> i \<longrightarrow> argument args i = Undefined"
    and "\<forall>i < length args. argument args i = args ! i"
    by (simp_all add: argument_def)
next
  assume enter: "enter_action params env args st = (actionEnv, st0)"
  then show "actionEnv = length (frames st) # env"
    by (rule enter_action_frames)
  show "\<forall>name. bound st0 (length (frames st)) name = (name \<in> set params)"
    using enter by (rule enter_action_binds)
  show "\<forall>i < length params. (\<forall>j < length params. i < j \<longrightarrow> params ! j \<noteq> params ! i) \<longrightarrow>
              map_of (variables (frames st0 ! length (frames st))) (params ! i) =
                Some (argument args i)"
    using enter by (rule enter_action_binds)
qed

theorem missing_arguments_witness:
  "call (Suc 5) (Action [''a'', ''b''] [Identifier ''b''] globalEnv) [Number 1] initial_state =
     Inr (Undefined, initial_state\<lparr>frames := frames initial_state @
            [\<lparr>variables = [(''a'', Number 1), (''b'', Undefined)],
              overrides = Some ([''a'', ''b''], [])\<rparr>]\<rparr>)
   \<and> call (Suc 5) (Action [''a'', ''b''] [Identifier ''b''] globalEnv)
        [Number 1, Number 2, Number 3] initial_state =
     Inr (Number 2, initial_state\<lparr>frames := frames initial_state @
            [\<lparr>variables = [(''a'', Number 1), (''b'', Number 2)],
              overrides = Some ([''a'', ''b''], [])\<rparr>]\<rparr>)
   \<and> bound (initial_state\<lparr>frames := frames initial_state @
            [\<lparr>variables = [(''a'', Number 1), (''b'', Undefined)],
              overrides = Some ([''a'', ''b''], [])\<rparr>]\<rparr>) 1 ''b''"
proof -
  let ?f = "Action [''a'', ''b''] [Identifier ''b''] globalEnv"
  let ?entered = "\<lambda>b. initial_state\<lparr>frames := frames initial_state @
            [\<lparr>variables = [(''a'', Number 1), (''b'', b)],
              overrides = Some ([''a'', ''b''], [])\<rparr>]\<rparr>"
  have e: "enter_action [''a'', ''b''] globalEnv [Number 1, b] initial_state =
      ([1, 0], ?entered b)" for b
    by (simp add: enter_action_def new_Environment_def initial_state_def globalEnv_def
          bind_params_def install_overrides_def variables_set_def argument_def upt_rec)
  have e': "enter_action [''a'', ''b''] globalEnv [Number 1] initial_state =
      ([1, 0], ?entered Undefined)"
    by (simp add: enter_action_def new_Environment_def initial_state_def globalEnv_def
          bind_params_def install_overrides_def variables_set_def argument_def upt_rec)
  have run: "call (Suc 5) ?f [Number 1, b] initial_state = Inr (b, ?entered b)" for b
    by (simp add: e eval_nat_numeral)
       (simp add: initial_state_def implicit_return_def assignedVars_def)
  have "call (Suc 5) ?f [Number 1] initial_state = call (Suc 5) ?f [Number 1, Undefined] initial_state"
    and "call (Suc 5) ?f [Number 1, Number 2, Number 3] initial_state =
      call (Suc 5) ?f [Number 1, Number 2] initial_state"
    using missing_arguments [where n = "Suc 5" and params = "[''a'', ''b'']"
        and body = "[Identifier ''b'']" and env = globalEnv and st = initial_state
        and args = "[Number 1]"]
      missing_arguments [where n = "Suc 5" and params = "[''a'', ''b'']"
        and body = "[Identifier ''b'']" and env = globalEnv and st = initial_state
        and args = "[Number 1, Number 2, Number 3]"]
    by (simp_all add: argument_def upt_rec del: evaluator_simps)
  moreover have "bound (?entered Undefined) 1 ''b''"
    using e' missing_arguments [where params = "[''a'', ''b'']" and env = globalEnv
        and st = initial_state and args = "[Number 1]" and actionEnv = "[1, 0]"
        and ?st0.0 = "?entered Undefined"]
    by (simp add: initial_state_def del: evaluator_simps)
  ultimately show ?thesis
    using run by simp
qed

section \<open>push and pop\<close>

lemma spread_copy:
  "arr < length h \<Longrightarrow> spread h arr = (h1, copy) \<Longrightarrow>
   copy = length h \<and> h1 = h @ [h ! arr]"
  by (auto simp: spread_def)

text \<open>
  C7. On a store of arrays, for every array \<open>arr\<close> of the store:

  \<^item> \<open>push(arr, ...items)\<close> returns a new array, one the store did not hold, that is \<open>arr\<close>
    with the items appended (one item \<open>x\<close>: \<open>arr\<close> with \<open>x\<close> appended); every array the
    store held, \<open>arr\<close> among them, is as it was;
  \<^item> \<open>pop(arr)\<close> returns the record \<open>{array, item}\<close>, where \<open>array\<close> is a new array, \<open>arr\<close>
    without its last element, and \<open>item\<close> is that last element (\<open>undefined\<close>, here \<open>None\<close>,
    when \<open>arr\<close> is empty); every array the store held is as it was.

  The evaluator, which holds arrays by value, gets the same arrays from its builtins
  (last two conjuncts).
\<close>

theorem push_pop_copy:
  "(arr < length h \<longrightarrow>
      (case push h arr items of
         (h', copy) \<Rightarrow>
           copy \<noteq> arr \<and> length h \<le> copy \<and> copy < length h'
           \<and> (\<forall>a < length h. h' ! a = h ! a)
           \<and> h' ! copy = h ! arr @ items)
      \<and> (case pop h arr of
           (h', result) \<Rightarrow>
             array result \<noteq> arr \<and> length h \<le> array result \<and> array result < length h'
             \<and> (\<forall>a < length h. h' ! a = h ! a)
             \<and> h' ! array result = butlast (h ! arr)
             \<and> item result = (if h ! arr = [] then None else Some (last (h ! arr)))))
   \<and> call_builtin ''push'' [Array xs, x] st = Inr (Array (xs @ [x]), st)
   \<and> call_builtin ''pop'' [Array xs] st =
       Inr (Record [(''array'', Array (butlast xs)),
                    (''item'', if xs = [] then Undefined else last xs)], st)"
proof (intro conjI impI)
  assume arr: "arr < length h"
  show "case push h arr items of
         (h', copy) \<Rightarrow>
           copy \<noteq> arr \<and> length h \<le> copy \<and> copy < length h'
           \<and> (\<forall>a < length h. h' ! a = h ! a)
           \<and> h' ! copy = h ! arr @ items"
    using arr by (auto simp: push_def spread_def Array_push_def nth_append)
  show "case pop h arr of
           (h', result) \<Rightarrow>
             array result \<noteq> arr \<and> length h \<le> array result \<and> array result < length h'
             \<and> (\<forall>a < length h. h' ! a = h ! a)
             \<and> h' ! array result = butlast (h ! arr)
             \<and> item result = (if h ! arr = [] then None else Some (last (h ! arr)))"
    using arr by (auto simp: pop_def spread_def Array_pop_def nth_append)
next
  show "call_builtin ''push'' [Array xs, x] st = Inr (Array (xs @ [x]), st)"
    by (simp add: call_builtin_def argument_def)
  show "call_builtin ''pop'' [Array xs] st =
       Inr (Record [(''array'', Array (butlast xs)),
                    (''item'', if xs = [] then Undefined else last xs)], st)"
    by (simp add: call_builtin_def argument_def)
qed

theorem push_pop_copy_witness:
  "push [[1, 2, 3 :: nat]] 0 [4] = ([[1, 2, 3], [1, 2, 3, 4]], 1)
   \<and> pop [[1, 2, 3 :: nat]] 0 = ([[1, 2, 3], [1, 2]], \<lparr>array = 1, item = Some 3\<rparr>)
   \<and> pop [[] :: nat list] 0 = ([[], []], \<lparr>array = 1, item = None\<rparr>)"
  using push_pop_copy [where arr = 0 and h = "[[1, 2, 3 :: nat]]" and items = "[4]"]
    push_pop_copy [where arr = 0 and h = "[[] :: nat list]" and items = "[4]"]
  by (simp add: push_def pop_def spread_def Array_push_def Array_pop_def)


section \<open>Numbers in the scanner\<close>

lemma point_is_no_digit: "\<not> is_digit CHR ''.''"
  by (simp add: is_digit_def)

lemma readNumber_loop_lexeme:
  "readNumber_loop cs p acc dec = (num, rest, p') \<Longrightarrow>
   \<exists>lexeme. num = acc @ lexeme \<and> lexeme @ rest = cs
     \<and> (\<forall>c \<in> set lexeme. is_digit c \<or> c = CHR ''.'')
     \<and> count_list lexeme CHR ''.'' \<le> (if dec then 0 else 1)
     \<and> (rest \<noteq> [] \<longrightarrow> \<not> is_digit (hd rest)
           \<and> (hd rest = CHR ''.'' \<longrightarrow> dec \<or> CHR ''.'' \<in> set lexeme))
     \<and> p' = (fst p, snd p + length lexeme)"
proof (induction cs arbitrary: p acc dec)
  case Nil
  then show ?case by simp
next
  case (Cons c cs)
  show ?case
  proof (cases "is_digit c \<or> (c = CHR ''.'' \<and> \<not> dec)")
    case False
    then show ?thesis
      using Cons.prems by auto
  next
    case True
    then have "readNumber_loop cs (advance c p) (acc @ [c]) (dec \<or> c = CHR ''.'') =
        (num, rest, p')"
      using Cons.prems by simp
    from Cons.IH [OF this] obtain lexeme where l: "num = (acc @ [c]) @ lexeme"
      "lexeme @ rest = cs" "\<forall>c \<in> set lexeme. is_digit c \<or> c = CHR ''.''"
      "count_list lexeme CHR ''.'' \<le> (if dec \<or> c = CHR ''.'' then 0 else 1)"
      "rest \<noteq> [] \<longrightarrow> \<not> is_digit (hd rest)
           \<and> (hd rest = CHR ''.'' \<longrightarrow> (dec \<or> c = CHR ''.'') \<or> CHR ''.'' \<in> set lexeme)"
      "p' = (fst (advance c p), snd (advance c p) + length lexeme)"
      by blast
    have nl: "c \<noteq> CHR 0x0A"
      using True by (auto simp: is_digit_def)
    have "num = acc @ (c # lexeme)" and "(c # lexeme) @ rest = c # cs"
      and "\<forall>d \<in> set (c # lexeme). is_digit d \<or> d = CHR ''.''"
      and "count_list (c # lexeme) CHR ''.'' \<le> (if dec then 0 else 1)"
      and "rest \<noteq> [] \<longrightarrow> \<not> is_digit (hd rest)
           \<and> (hd rest = CHR ''.'' \<longrightarrow> dec \<or> CHR ''.'' \<in> set (c # lexeme))"
      and "p' = (fst p, snd p + length (c # lexeme))"
      using l True nl by (auto simp: advance_def point_is_no_digit split: if_splits)
    then show ?thesis
      by blast
  qed
qed

lemma readNumber_lexeme:
  assumes "readNumber input p = (token, rest, p')"
  shows "\<exists>lexeme. lexeme @ rest = input
          \<and> token = Token NUMBER (Number (parseFloat lexeme)) (fst p) (snd p)
          \<and> (\<forall>c \<in> set lexeme. is_digit c \<or> c = CHR ''.'')
          \<and> count_list lexeme CHR ''.'' \<le> 1
          \<and> (rest \<noteq> [] \<longrightarrow> \<not> is_digit (hd rest)
                \<and> (hd rest = CHR ''.'' \<longrightarrow> CHR ''.'' \<in> set lexeme))"
proof -
  obtain num where loop: "readNumber_loop input p [] False = (num, rest, p')"
    and token: "token = Token NUMBER (Number (parseFloat num)) (fst p) (snd p)"
    using assms by (auto simp: readNumber_def split: prod.splits)
  show ?thesis
    using readNumber_loop_lexeme [OF loop] token by auto
qed

lemma tokenize_loop_digit:
  assumes "is_digit c"
  shows "tokenize_loop (c # cs) p tokens =
     (case readNumber (c # cs) p of
        (token, rest, p2) \<Rightarrow> tokenize_loop rest p2 (tokens @ [token]))"
proof -
  have "\<not> is_whitespace c" and "c \<noteq> CHR ''/''" and "c \<noteq> CHR 0x0A"
    using assms by (auto simp: is_digit_def is_whitespace_def)
  then show ?thesis
    using assms by (subst tokenize_loop.simps) (simp del: tokenize_loop.simps)
qed

text \<open>
  C8. Tokenizing \<open>42 3.14\<close> gives a NUMBER token of value 42, a NUMBER token of value
  3.14 and the EOF token, and nothing else. The main loop reads a number where the next
  character is a digit, and there only. What readNumber takes from the input is its
  longest prefix of digits with at most one point: the characters are digits and points,
  there is at most one point, and what follows is not a digit, and is a point only if the
  number has one already. So a sign or an exponent is never part of a number: \<open>-5\<close> is
  MINUS and the number 5, \<open>1e5\<close> is the number 1 and the identifier \<open>e5\<close>, and \<open>1.2.3\<close> is
  the number 1.2, a DOT and the number 3.
\<close>

theorem number_tokens:
  "tokenize ''42 3.14'' =
     Inr [Token NUMBER (Number 42) 1 1, Token NUMBER (Number (314 / 100)) 1 4, Token EOF Null 1 8]
   \<and> (is_digit c \<longrightarrow>
        tokenize_loop (c # cs) p tokens =
          (case readNumber (c # cs) p of
             (token, rest, p2) \<Rightarrow> tokenize_loop rest p2 (tokens @ [token])))
   \<and> (\<forall>token rest p'. readNumber input p = (token, rest, p') \<longrightarrow>
        (\<exists>lexeme. lexeme @ rest = input
          \<and> token = Token NUMBER (Number (parseFloat lexeme)) (fst p) (snd p)
          \<and> (\<forall>c \<in> set lexeme. is_digit c \<or> c = CHR ''.'')
          \<and> count_list lexeme CHR ''.'' \<le> 1
          \<and> (rest \<noteq> [] \<longrightarrow> \<not> is_digit (hd rest)
                \<and> (hd rest = CHR ''.'' \<longrightarrow> CHR ''.'' \<in> set lexeme))))
   \<and> tokenize ''-5'' =
       Inr [Token MINUS (Str ''-'') 1 1, Token NUMBER (Number 5) 1 2, Token EOF Null 1 3]
   \<and> tokenize ''1e5'' =
       Inr [Token NUMBER (Number 1) 1 1, Token IDENTIFIER (Str ''e5'') 1 2, Token EOF Null 1 4]
   \<and> tokenize ''1.2.3'' =
       Inr [Token NUMBER (Number (12 / 10)) 1 1, Token DOT (Str ''.'') 1 4,
            Token NUMBER (Number 3) 1 5, Token EOF Null 1 6]"
proof (intro conjI impI allI)
  note defs = tokenize_def is_whitespace_def is_digit_def readNumber_def advance_def
    parseFloat_def digits_value_def digit_value_def is_identifier_start_def
    is_identifier_part_def readIdentifier_def KEYWORDS_def object_prototype_names_def
    twoChar_def singleChar_def
  show "tokenize ''42 3.14'' =
     Inr [Token NUMBER (Number 42) 1 1, Token NUMBER (Number (314 / 100)) 1 4, Token EOF Null 1 8]"
    by (simp add: defs)
  show "tokenize ''-5'' =
       Inr [Token MINUS (Str ''-'') 1 1, Token NUMBER (Number 5) 1 2, Token EOF Null 1 3]"
    by (simp add: defs)
  show "tokenize ''1e5'' =
       Inr [Token NUMBER (Number 1) 1 1, Token IDENTIFIER (Str ''e5'') 1 2, Token EOF Null 1 4]"
    by (simp add: defs)
  show "tokenize ''1.2.3'' =
       Inr [Token NUMBER (Number (12 / 10)) 1 1, Token DOT (Str ''.'') 1 4,
            Token NUMBER (Number 3) 1 5, Token EOF Null 1 6]"
    by (simp add: defs)
next
  assume "is_digit c"
  then show "tokenize_loop (c # cs) p tokens =
          (case readNumber (c # cs) p of
             (token, rest, p2) \<Rightarrow> tokenize_loop rest p2 (tokens @ [token]))"
    by (rule tokenize_loop_digit)
next
  fix token rest p'
  assume "readNumber input p = (token, rest, p')"
  then show "\<exists>lexeme. lexeme @ rest = input
          \<and> token = Token NUMBER (Number (parseFloat lexeme)) (fst p) (snd p)
          \<and> (\<forall>c \<in> set lexeme. is_digit c \<or> c = CHR ''.'')
          \<and> count_list lexeme CHR ''.'' \<le> 1
          \<and> (rest \<noteq> [] \<longrightarrow> \<not> is_digit (hd rest)
                \<and> (hd rest = CHR ''.'' \<longrightarrow> CHR ''.'' \<in> set lexeme))"
    by (rule readNumber_lexeme)
qed

theorem number_tokens_witness:
  "readNumber ''3.14.5'' (1, 1) = (Token NUMBER (Number (314 / 100)) 1 1, ''.5'', (1, 5))
   \<and> tokenize_loop ''7+'' (1, 1) [] =
       Inr [Token NUMBER (Number 7) 1 1, Token PLUS (Str ''+'') 1 2, Token EOF Null 1 3]"
  using number_tokens [where input = "''3.14.5''" and p = "(1, 1)" and c = "CHR ''7''"
      and cs = "''+''" and tokens = "[]"]
  by (simp add: is_whitespace_def is_digit_def readNumber_def advance_def
    parseFloat_def digits_value_def digit_value_def is_identifier_start_def
    twoChar_def singleChar_def)

end
